theory Spec2Isabelle
  imports Complex_Main "HOL-Library.AList"
begin

section \<open>The signaling server: data model\<close>

text \<open>
  The repository holds two versions of the server. The model follows the one with
  acknowledgments and validation (\<^verbatim>\<open>src/unnamed/part_000\<close>), handler by handler;
  the handlers of the earlier one (\<^verbatim>\<open>src/server.js\<close>) that the properties refer to
  are modelled in a section of their own. The process-wide state is the object
  \<^verbatim>\<open>db\<close>, together with the one property of \<^verbatim>\<open>Object.prototype\<close> that a handler can
  create; every handler is a function from the state before to the state after, together
  with the list of what the handler does to the transport, in source order.

  Scope of the model.
  \<^item> Connection identifiers and room codes are strings. The argument of an event is
    the string the client sent, so the guard \<^verbatim>\<open>typeof room !== 'string'\<close> is never
    taken. The length of a code is its number of characters (of UTF-16 code units in the
    program).
  \<^item> \<^verbatim>\<open>db.rooms\<close> and \<^verbatim>\<open>db.offlineMessages\<close> are plain JavaScript objects used as
    dictionaries. Their own properties are association lists, in creation order; a
    lookup that finds no own property falls through to \<^verbatim>\<open>Object.prototype\<close>, as in
    the program.
  \<^item> Times are milliseconds since the epoch, the resolution of \<^verbatim>\<open>toISOString\<close>.
    The duration of a call is the exact quotient by 1000; the program stores
    the double nearest to it.
  \<^item> \<^verbatim>\<open>saveDB\<close> and \<^verbatim>\<open>console.log\<close> do not change \<^verbatim>\<open>db\<close> and are left out.
  \<^item> Every request comes with a callback.
\<close>

type_synonym sid = string
type_synonym time = int

text \<open>A JavaScript value as far as the handlers look at it: they only test it for truth.
  Numbers are integers here; \<^verbatim>\<open>NaN\<close>, which is falsy like zero, is left out.\<close>

datatype jsval =
    JUndefined
  | JNull
  | JBool bool
  | JNum int
  | JStr string
  | JObj "(string \<times> jsval) list"

fun truthy :: "jsval \<Rightarrow> bool" where
  "truthy JUndefined = False"
| "truthy JNull = False"
| "truthy (JBool b) = b"
| "truthy (JNum n) = (n \<noteq> 0)"
| "truthy (JStr s) = (s \<noteq> [])"
| "truthy (JObj fs) = True"

record room_obj =
  createdAt :: time
  participants :: "sid list"
  creator :: "sid option"
  connectedAt :: "time option"

record offline_message =
  msg_from :: sid
  message :: jsval
  timestamp :: time

record call_record =
  cr_room :: string
  startTime :: time
  endTime :: time
  duration :: rat
  cr_participants :: "sid list"

record stats =
  totalCalls :: nat
  failedCalls :: nat
  totalConnections :: nat

record db =
  callRecords :: "call_record list"
  offlineMessages :: "(string \<times> offline_message list) list"
  rooms :: "(string \<times> room_obj) list"
  stats :: stats

text \<open>
  The state of the process: \<^verbatim>\<open>db\<close> and, outside it, two things the handlers can
  change. \<open>inherited_connectedAt\<close> is the property \<^verbatim>\<open>connectedAt\<close> of
  \<^verbatim>\<open>Object.prototype\<close>, absent when the process starts; the handler of
  \<^verbatim>\<open>call_connected\<close> creates it when it is given the code \<^verbatim>\<open>__proto__\<close>, and from
  then on every object that has no \<^verbatim>\<open>connectedAt\<close> of its own inherits it. \<open>crashed\<close>
  says that an exception has left a handler uncaught: the file installs no handler for
  that, so the process has ended and handles no further request.
\<close>

record server = db +
  inherited_connectedAt :: "time option"
  crashed :: bool

text \<open>The state of a server started without a database file.\<close>

definition initial_db :: server where
  "initial_db =
     \<lparr>callRecords = [], offlineMessages = [], rooms = [],
      stats = \<lparr>totalCalls = 0, failedCalls = 0, totalConnections = 0\<rparr>,
      inherited_connectedAt = None, crashed = False\<rparr>"

text \<open>The \<^verbatim>\<open>data\<close> object of \<^verbatim>\<open>offer\<close>, \<^verbatim>\<open>answer\<close> and \<^verbatim>\<open>ice\<close>; a field the
  client left out is \<^const>\<open>JUndefined\<close>, a missing room is the empty string (both are
  falsy).\<close>

record relay_data =
  room :: string
  offer :: jsval
  answer :: jsval
  candidate :: jsval

subsection \<open>What a handler does to the transport\<close>

text \<open>
  \<^verbatim>\<open>socket.emit\<close> reaches the calling socket, \<^verbatim>\<open>io.to(g).emit\<close> the transport group
  \<open>g\<close>, \<^verbatim>\<open>socket.to(g).emit\<close> the group \<open>g\<close> without the calling socket.
  \<^verbatim>\<open>socket.join\<close> and \<^verbatim>\<open>socket.leave\<close> put the calling socket into a group and take
  it out.

  The text of a failure is one of the handler's own messages, or the message of a
  \<^verbatim>\<open>TypeError\<close> that the engine throws when the handler uses the named member of a value
  that has none (\<^verbatim>\<open>undefined.length\<close>, a \<^verbatim>\<open>push\<close> that is not a function); the wording
  of that message is the engine's.
\<close>

datatype failure =
    Message string
  | TypeError string

datatype target =
    ToSender
  | ToGroup string
  | ToGroupExcept string sid

text \<open>\<open>Ev_pending_messages_inherited name\<close> is a \<^verbatim>\<open>pending_messages\<close> event whose
  payload is not a list of messages but the value that objects inherit under \<open>name\<close>.\<close>

datatype event =
    Ev_pending_messages "offline_message list"
  | Ev_pending_messages_inherited string
  | Ev_joined string
  | Ev_peer_joined
  | Ev_error failure
  | Ev_offer relay_data
  | Ev_answer relay_data
  | Ev_ice relay_data
  | Ev_recording_notification string
  | Ev_offline_message sid jsval
  | Ev_leave
  | Ev_full

datatype ack =
    AckOk "string option"
  | AckErr failure

datatype action =
    Ack ack
  | Emit target event
  | JoinGroup string
  | LeaveGroup string

subsection \<open>Enumeration order of an object's keys\<close>

text \<open>
  \<^verbatim>\<open>for (const room in db.rooms)\<close> visits the own keys that are array indices first, in
  ascending numeric order, then the other own keys in creation order.
\<close>

definition is_digit :: "char \<Rightarrow> bool" where
  "is_digit c = (c \<in> set ''0123456789'')"

definition digits_value :: "string \<Rightarrow> int" where
  "digits_value s = foldl (\<lambda>n c. 10 * n + (of_char c - 48)) 0 s"

definition is_array_index :: "string \<Rightarrow> bool" where
  "is_array_index s =
     (s \<noteq> [] \<and> list_all is_digit s \<and> (s = ''0'' \<or> hd s \<noteq> CHR ''0'')
      \<and> digits_value s < 2 ^ 32 - 1)"

definition own_keys :: "(string \<times> 'v) list \<Rightarrow> string list" where
  "own_keys al =
     (let ks = map fst al
      in sort_key digits_value (filter is_array_index ks)
         @ filter (\<lambda>k. \<not> is_array_index k) ks)"

subsection \<open>What the dictionaries inherit\<close>

text \<open>
  The property names of \<^verbatim>\<open>Object.prototype\<close>. Under each of them a lookup in an
  object that has no own property of that name finds a function, and under
  \<^verbatim>\<open>__proto__\<close> it finds \<^verbatim>\<open>Object.prototype\<close> itself: a truthy value that has no
  \<^verbatim>\<open>participants\<close> and no \<^verbatim>\<open>push\<close>. None of them is enumerable.
\<close>

definition object_prototype_names :: "string list" where
  "object_prototype_names =
     [''constructor'', ''__defineGetter__'', ''__defineSetter__'', ''hasOwnProperty'',
      ''__lookupGetter__'', ''__lookupSetter__'', ''isPrototypeOf'', ''propertyIsEnumerable'',
      ''toString'', ''valueOf'', ''__proto__'', ''toLocaleString'']"

text \<open>
  \<open>inherits d name\<close>: a lookup of \<open>name\<close> in \<^verbatim>\<open>db.rooms\<close> or
  \<^verbatim>\<open>db.offlineMessages\<close> that finds no own property finds an inherited value instead of
  \<^verbatim>\<open>undefined\<close>. Besides the names above this is \<^verbatim>\<open>connectedAt\<close> once it has been
  put on \<^verbatim>\<open>Object.prototype\<close>; the value is then a date string.
\<close>

definition inherits :: "server \<Rightarrow> string \<Rightarrow> bool" where
  "inherits d name =
     (name \<in> set object_prototype_names
      \<or> (name = ''connectedAt'' \<and> inherited_connectedAt d \<noteq> None))"

text \<open>
  Whether the \<^verbatim>\<open>length\<close> of the inherited value is positive: the number of
  parameters of the function, the length of the date string; \<^verbatim>\<open>Object.prototype\<close> has
  no \<^verbatim>\<open>length\<close>.
\<close>

definition inherited_length_positive :: "string \<Rightarrow> bool" where
  "inherited_length_positive name =
     (name \<in> set [''constructor'', ''__defineGetter__'', ''__defineSetter__'',
                   ''hasOwnProperty'', ''__lookupGetter__'', ''__lookupSetter__'',
                   ''isPrototypeOf'', ''propertyIsEnumerable'', ''connectedAt''])"

text \<open>\<^verbatim>\<open>roomObj.connectedAt\<close>: the room's own property, or else the inherited one.\<close>

definition connectedAt_of :: "server \<Rightarrow> room_obj \<Rightarrow> time option" where
  "connectedAt_of d roomObj =
     (case connectedAt roomObj of
        Some t \<Rightarrow> Some t
      | None \<Rightarrow> inherited_connectedAt d)"

text \<open>
  The enumerable keys that \<^verbatim>\<open>for ... in\<close> over \<^verbatim>\<open>db.rooms\<close> visits after the own
  keys: the inherited \<^verbatim>\<open>connectedAt\<close>, unless an own key of that name has it
  shadowed.
\<close>

definition inherited_keys :: "server \<Rightarrow> string list" where
  "inherited_keys d =
     (if inherited_connectedAt d \<noteq> None \<and> ''connectedAt'' \<notin> set (map fst (rooms d))
      then [''connectedAt''] else [])"

section \<open>Call accounting and cleanup\<close>

text \<open>
  \<^verbatim>\<open>finalizeCallRecord(room)\<close>; \<open>now\<close> is what \<^verbatim>\<open>new Date()\<close> returns there. Its
  callers pass the code of a room they have just found among the own keys, so the lookup
  does not fall through to an inherited value.
\<close>

definition finalizeCallRecord :: "time \<Rightarrow> string \<Rightarrow> server \<Rightarrow> server" where
  "finalizeCallRecord now code d =
     (case map_of (rooms d) code of
        None \<Rightarrow> d
      | Some roomObj \<Rightarrow>
          (case connectedAt_of d roomObj of
             None \<Rightarrow> d
           | Some started \<Rightarrow>
               d\<lparr>callRecords := callRecords d @
                    [\<lparr>cr_room = code, startTime = started, endTime = now,
                      duration = of_int (now - started) / 1000,
                      cr_participants = participants roomObj\<rparr>],
                  rooms := AList.delete code (rooms d)\<rparr>))"

text \<open>
  The part of \<^verbatim>\<open>cleanupRoom\<close> and of the loop body of \<^verbatim>\<open>cleanupSocketRooms\<close> that
  follows \<^verbatim>\<open>index !== -1\<close>: \<^verbatim>\<open>splice(index, 1)\<close> takes out the first occurrence, and
  the record is finalized if nobody is left and \<^verbatim>\<open>connectedAt\<close> is truthy.
\<close>

definition remove_participant :: "time \<Rightarrow> string \<Rightarrow> room_obj \<Rightarrow> sid \<Rightarrow> server \<Rightarrow> server" where
  "remove_participant now code roomObj socketId d =
     (let roomObj' = roomObj\<lparr>participants := remove1 socketId (participants roomObj)\<rparr>;
          d1 = d\<lparr>rooms := AList.update code roomObj' (rooms d)\<rparr>
      in if length (participants roomObj') = 0 \<and> connectedAt_of d1 roomObj' \<noteq> None
         then finalizeCallRecord now code d1
         else d1)"

text \<open>
  \<^verbatim>\<open>cleanupRoom(room, socketId)\<close>. For a code with no own property but an inherited
  value, \<^verbatim>\<open>roomObj\<close> is truthy and has no \<^verbatim>\<open>participants\<close>, so \<^verbatim>\<open>indexOf\<close>
  throws.
\<close>

definition cleanupRoom :: "time \<Rightarrow> string \<Rightarrow> sid \<Rightarrow> server \<Rightarrow> failure + server" where
  "cleanupRoom now code socketId d =
     (case map_of (rooms d) code of
        None \<Rightarrow> if inherits d code then Inl (TypeError ''indexOf'') else Inr d
      | Some roomObj \<Rightarrow>
          if socketId \<in> set (participants roomObj)
          then Inr (remove_participant now code roomObj socketId d)
          else Inr d)"

text \<open>
  The loop of \<^verbatim>\<open>cleanupSocketRooms\<close> over the own keys still to visit. \<open>clk code\<close> is
  the clock reading when the record of room \<open>code\<close> is finalized. A key deleted before
  its visit is skipped, as \<^verbatim>\<open>for ... in\<close> does.
\<close>

fun sweep :: "(string \<Rightarrow> time) \<Rightarrow> sid \<Rightarrow> string list \<Rightarrow> server \<Rightarrow> server \<times> action list" where
  "sweep clk socketId [] d = (d, [])"
| "sweep clk socketId (code # codes) d =
     (case map_of (rooms d) code of
        None \<Rightarrow> sweep clk socketId codes d
      | Some roomObj \<Rightarrow>
          if socketId \<in> set (participants roomObj)
          then (let d' = remove_participant (clk code) code roomObj socketId d;
                    (d'', acts) = sweep clk socketId codes d'
                in (d'', Emit (ToGroup code) Ev_leave # acts))
          else sweep clk socketId codes d)"

text \<open>
  \<^verbatim>\<open>cleanupSocketRooms(socketId)\<close>. After the own keys the loop comes to the inherited
  key, if there is one: there \<^verbatim>\<open>db.rooms[room]\<close> is a string, which has no
  \<^verbatim>\<open>participants\<close>, and \<^verbatim>\<open>indexOf\<close> throws. The disconnect handler has no
  \<^verbatim>\<open>try\<close>, so the exception is not caught.
\<close>

definition cleanupSocketRooms ::
  "(string \<Rightarrow> time) \<Rightarrow> sid \<Rightarrow> server \<Rightarrow> server \<times> action list" where
  "cleanupSocketRooms clk socketId d =
     (let (d', acts) = sweep clk socketId (own_keys (rooms d)) d
      in if inherited_keys d = [] then (d', acts) else (d'\<lparr>crashed := True\<rparr>, acts))"

section \<open>The event handlers\<close>

text \<open>
  Each handler is named after its event. A \<^verbatim>\<open>throw\<close> inside the handler's
  \<^verbatim>\<open>try\<close>, the handler's own or the engine's, is the branch that returns the state as
  it is at that point and the acknowledgment \<^verbatim>\<open>{success: false, error: err.message}\<close>.
  \<open>socketId\<close> is \<^verbatim>\<open>socket.id\<close>.
\<close>

definition on_connection :: "server \<Rightarrow> server \<times> action list" where
  "on_connection d =
     (d\<lparr>stats := (stats d)\<lparr>totalConnections := totalConnections (stats d) + 1\<rparr>\<rparr>, [])"

text \<open>\<^verbatim>\<open>if (db.rooms[room])\<close> is taken for an own room and for an inherited value.\<close>

definition on_create :: "time \<Rightarrow> sid \<Rightarrow> string \<Rightarrow> server \<Rightarrow> server \<times> action list" where
  "on_create now socketId code d =
     (if code = [] \<or> length code < 4 then (d, [Ack (AckErr (Message ''Invalid room code''))])
      else if map_of (rooms d) code \<noteq> None \<or> inherits d code
      then (d, [Ack (AckErr (Message ''Room already exists''))])
      else (d\<lparr>rooms := AList.update code
                   \<lparr>createdAt = now, participants = [socketId], creator = Some socketId,
                    connectedAt = None\<rparr> (rooms d)\<rparr>,
            [JoinGroup code, Ack (AckOk (Some code))]))"

text \<open>The \<^verbatim>\<open>catch\<close> of \<^verbatim>\<open>join\<close> also sends an \<^verbatim>\<open>error\<close> event to the caller.\<close>

definition join_failed :: "failure \<Rightarrow> server \<Rightarrow> server \<times> action list" where
  "join_failed msg d = (d, [Ack (AckErr msg), Emit ToSender (Ev_error msg)])"

text \<open>The own queue of a code, empty for a code that has none.\<close>

definition pending_of :: "server \<Rightarrow> string \<Rightarrow> offline_message list" where
  "pending_of d code = (case map_of (offlineMessages d) code of None \<Rightarrow> [] | Some ms \<Rightarrow> ms)"

text \<open>
  The delivery of the pending messages in \<^verbatim>\<open>join\<close>:
  \<^verbatim>\<open>if (db.offlineMessages[room]?.length > 0)\<close>, the \<^verbatim>\<open>pending_messages\<close> event and the
  \<^verbatim>\<open>delete\<close>, which removes an own property and leaves an inherited one alone.
\<close>

definition deliver_pending :: "string \<Rightarrow> server \<Rightarrow> server \<times> action list" where
  "deliver_pending code d =
     (case map_of (offlineMessages d) code of
        Some ms \<Rightarrow>
          if length ms > 0
          then (d\<lparr>offlineMessages := AList.delete code (offlineMessages d)\<rparr>,
                [Emit ToSender (Ev_pending_messages ms)])
          else (d, [])
      | None \<Rightarrow>
          if inherits d code \<and> inherited_length_positive code
          then (d, [Emit ToSender (Ev_pending_messages_inherited code)])
          else (d, []))"

text \<open>
  For a code with no own property but an inherited value the test
  \<^verbatim>\<open>!db.rooms[room]\<close> fails, \<^verbatim>\<open>roomObj.participants\<close> is undefined and reading its
  \<^verbatim>\<open>length\<close> throws.
\<close>

definition on_join :: "sid \<Rightarrow> string \<Rightarrow> server \<Rightarrow> server \<times> action list" where
  "on_join socketId code d =
     (if code = [] then join_failed (Message ''Invalid room code'') d
      else case map_of (rooms d) code of
        None \<Rightarrow>
          if inherits d code then join_failed (TypeError ''length'') d
          else join_failed (Message ''Room does not exist'') d
      | Some roomObj \<Rightarrow>
          if length (participants roomObj) \<ge> 2 then join_failed (Message ''Room is full'') d
          else
            (let roomObj' = roomObj\<lparr>participants := participants roomObj @ [socketId]\<rparr>;
                 d1 = d\<lparr>rooms := AList.update code roomObj' (rooms d)\<rparr>;
                 (d2, acts_pending) = deliver_pending code d1;
                 (d3, acts_peer) =
                   (if length (participants roomObj') = 2
                    then (d2\<lparr>stats := (stats d2)\<lparr>totalCalls := totalCalls (stats d2) + 1\<rparr>\<rparr>,
                          [Emit (ToGroup (participants roomObj' ! 0)) Ev_peer_joined])
                    else (d2, []))
             in (d3, [JoinGroup code] @ acts_pending @ [Emit (ToGroup code) (Ev_joined code)]
                       @ acts_peer @ [Ack (AckOk (Some code))])))"

text \<open>
  \<^verbatim>\<open>db.rooms[room]?.participants.includes(socket.id)\<close>: \<^verbatim>\<open>?.\<close> stops at
  \<^verbatim>\<open>undefined\<close> only, so for an inherited value \<^verbatim>\<open>participants\<close> is undefined and
  \<^verbatim>\<open>includes\<close> throws.
\<close>

definition includes_participant :: "server \<Rightarrow> string \<Rightarrow> sid \<Rightarrow> failure + bool" where
  "includes_participant d code socketId =
     (case map_of (rooms d) code of
        None \<Rightarrow> if inherits d code then Inl (TypeError ''includes'') else Inr False
      | Some roomObj \<Rightarrow> Inr (socketId \<in> set (participants roomObj)))"

definition on_offer :: "sid \<Rightarrow> relay_data \<Rightarrow> server \<Rightarrow> server \<times> action list" where
  "on_offer socketId data d =
     (if room data = [] \<or> \<not> truthy (offer data)
      then (d, [Ack (AckErr (Message ''Invalid offer data''))])
      else case includes_participant d (room data) socketId of
        Inl e \<Rightarrow> (d, [Ack (AckErr e)])
      | Inr False \<Rightarrow> (d, [Ack (AckErr (Message ''Not a room participant''))])
      | Inr True \<Rightarrow>
          (d, [Emit (ToGroupExcept (room data) socketId) (Ev_offer data), Ack (AckOk None)]))"

definition on_answer :: "sid \<Rightarrow> relay_data \<Rightarrow> server \<Rightarrow> server \<times> action list" where
  "on_answer socketId data d =
     (if room data = [] \<or> \<not> truthy (answer data)
      then (d, [Ack (AckErr (Message ''Invalid answer data''))])
      else case includes_participant d (room data) socketId of
        Inl e \<Rightarrow> (d, [Ack (AckErr e)])
      | Inr False \<Rightarrow> (d, [Ack (AckErr (Message ''Not a room participant''))])
      | Inr True \<Rightarrow>
          (d, [Emit (ToGroupExcept (room data) socketId) (Ev_answer data), Ack (AckOk None)]))"

definition on_ice :: "sid \<Rightarrow> relay_data \<Rightarrow> server \<Rightarrow> server \<times> action list" where
  "on_ice socketId data d =
     (if room data = [] \<or> \<not> truthy (candidate data)
      then (d, [Ack (AckErr (Message ''Invalid ICE candidate data''))])
      else case includes_participant d (room data) socketId of
        Inl e \<Rightarrow> (d, [Ack (AckErr e)])
      | Inr False \<Rightarrow> (d, [Ack (AckErr (Message ''Not a room participant''))])
      | Inr True \<Rightarrow>
          (d, [Emit (ToGroupExcept (room data) socketId) (Ev_ice data), Ack (AckOk None)]))"

definition on_recording_started :: "sid \<Rightarrow> string \<Rightarrow> server \<Rightarrow> server \<times> action list" where
  "on_recording_started socketId code d =
     (case includes_participant d code socketId of
        Inl e \<Rightarrow> (d, [Ack (AckErr e)])
      | Inr False \<Rightarrow> (d, [Ack (AckErr (Message ''Not a room participant''))])
      | Inr True \<Rightarrow>
          (d, [Emit (ToGroupExcept code socketId)
                 (Ev_recording_notification ''Recording has started''),
               Ack (AckOk None)]))"

definition on_recording_stopped :: "sid \<Rightarrow> string \<Rightarrow> server \<Rightarrow> server \<times> action list" where
  "on_recording_stopped socketId code d =
     (case includes_participant d code socketId of
        Inl e \<Rightarrow> (d, [Ack (AckErr e)])
      | Inr False \<Rightarrow> (d, [Ack (AckErr (Message ''Not a room participant''))])
      | Inr True \<Rightarrow>
          (d, [Emit (ToGroupExcept code socketId)
                 (Ev_recording_notification ''Recording has stopped''),
               Ack (AckOk None)]))"

text \<open>
  \<^verbatim>\<open>leave_message\<close>. An inherited value passes both \<^verbatim>\<open>!db.rooms[room]\<close> and
  \<^verbatim>\<open>!db.offlineMessages[room]\<close>; it has no \<^verbatim>\<open>push\<close>, so the call throws. An own
  queue is appended to whatever the lookup of the room found.
\<close>

definition on_leave_message ::
  "time \<Rightarrow> sid \<Rightarrow> string \<Rightarrow> jsval \<Rightarrow> server \<Rightarrow> server \<times> action list" where
  "on_leave_message now socketId code msg d =
     (if code = [] \<or> \<not> truthy msg then (d, [Ack (AckErr (Message ''Invalid message data''))])
      else if map_of (rooms d) code = None \<and> \<not> inherits d code
      then (d, [Ack (AckErr (Message ''Room does not exist''))])
      else if map_of (offlineMessages d) code = None \<and> inherits d code
      then (d, [Ack (AckErr (TypeError ''push''))])
      else
        (let d1 = (if map_of (offlineMessages d) code = None
                   then d\<lparr>offlineMessages := AList.update code [] (offlineMessages d)\<rparr>
                   else d);
             d2 = d1\<lparr>offlineMessages := AList.update code
                        (pending_of d1 code @
                           [\<lparr>msg_from = socketId, message = msg, timestamp = now\<rparr>])
                        (offlineMessages d1)\<rparr>
         in (d2, [Emit (ToGroupExcept code socketId) (Ev_offline_message socketId msg),
                  Ack (AckOk None)])))"

text \<open>
  \<^verbatim>\<open>call_connected\<close>. An inherited value is truthy, so the handler assigns to its
  \<^verbatim>\<open>connectedAt\<close> and acknowledges success. Under \<^verbatim>\<open>__proto__\<close> the value is
  \<^verbatim>\<open>Object.prototype\<close>, and the assignment creates the property that every object then
  inherits. Under the other names it is a function, whose \<^verbatim>\<open>connectedAt\<close> no handler
  ever reads, or the inherited date string, on which the assignment has no effect.
\<close>

definition on_call_connected :: "time \<Rightarrow> string \<Rightarrow> server \<Rightarrow> server \<times> action list" where
  "on_call_connected now code d =
     (case map_of (rooms d) code of
        Some roomObj \<Rightarrow>
          (d\<lparr>rooms := AList.update code (roomObj\<lparr>connectedAt := Some now\<rparr>) (rooms d)\<rparr>,
           [Ack (AckOk None)])
      | None \<Rightarrow>
          if code = ''__proto__'' then (d\<lparr>inherited_connectedAt := Some now\<rparr>, [Ack (AckOk None)])
          else if inherits d code then (d, [Ack (AckOk None)])
          else (d, [Ack (AckErr (Message ''Room not found''))]))"

text \<open>\<^verbatim>\<open>leave\<close>: an exception in \<^verbatim>\<open>cleanupRoom\<close> skips the notification.\<close>

definition on_leave :: "time \<Rightarrow> sid \<Rightarrow> string \<Rightarrow> server \<Rightarrow> server \<times> action list" where
  "on_leave now socketId code d =
     (case cleanupRoom now code socketId d of
        Inl e \<Rightarrow> (d, [LeaveGroup code, Ack (AckErr e)])
      | Inr d' \<Rightarrow>
          (d', [LeaveGroup code, Emit (ToGroupExcept code socketId) Ev_leave, Ack (AckOk None)]))"

definition on_disconnect :: "(string \<Rightarrow> time) \<Rightarrow> sid \<Rightarrow> server \<Rightarrow> server \<times> action list" where
  "on_disconnect clk socketId d = cleanupSocketRooms clk socketId d"

subsection \<open>Sequences of requests\<close>

datatype request =
    Connection
  | Create string
  | Join string
  | Offer relay_data
  | Answer relay_data
  | Ice relay_data
  | RecordingStarted string
  | RecordingStopped string
  | LeaveMessage string jsval
  | CallConnected string
  | Leave string
  | Disconnect

text \<open>
  A step is a request of one socket together with the clock: \<open>clk code\<close> is the
  reading of \<^verbatim>\<open>new Date()\<close> while the handler works on room \<open>code\<close>. Only the
  disconnect handler can read the clock for more than one room.
\<close>

type_synonym step = "(string \<Rightarrow> time) \<times> sid \<times> request"

fun dispatch :: "step \<Rightarrow> server \<Rightarrow> server \<times> action list" where
  "dispatch (clk, s, Connection) d = on_connection d"
| "dispatch (clk, s, Create code) d = on_create (clk code) s code d"
| "dispatch (clk, s, Join code) d = on_join s code d"
| "dispatch (clk, s, Offer data) d = on_offer s data d"
| "dispatch (clk, s, Answer data) d = on_answer s data d"
| "dispatch (clk, s, Ice data) d = on_ice s data d"
| "dispatch (clk, s, RecordingStarted code) d = on_recording_started s code d"
| "dispatch (clk, s, RecordingStopped code) d = on_recording_stopped s code d"
| "dispatch (clk, s, LeaveMessage code msg) d = on_leave_message (clk code) s code msg d"
| "dispatch (clk, s, CallConnected code) d = on_call_connected (clk code) code d"
| "dispatch (clk, s, Leave code) d = on_leave (clk code) s code d"
| "dispatch (clk, s, Disconnect) d = on_disconnect clk s d"

text \<open>A process that has ended handles nothing.\<close>

definition handle :: "step \<Rightarrow> server \<Rightarrow> server \<times> action list" where
  "handle st d = (if crashed d then (d, []) else dispatch st d)"

text \<open>The state after a sequence of steps, and what each step did, oldest first.\<close>

fun run :: "server \<Rightarrow> step list \<Rightarrow> server \<times> action list list" where
  "run d [] = (d, [])"
| "run d (st # sts) =
     (let (d', acts) = handle st d;
          (d'', log) = run d' sts
      in (d'', acts # log))"

subsection \<open>Who receives what\<close>

text \<open>
  The groups of the transport: a socket is in the group named by its own identifier from
  its connection on, \<^verbatim>\<open>socket.join\<close> and \<^verbatim>\<open>socket.leave\<close> put it into a group and
  take it out, and when it disconnects it has left every group before the disconnect
  handler runs. Group names and socket identifiers are the same strings.
\<close>

type_synonym groups = "string \<Rightarrow> sid set"

definition recipients :: "groups \<Rightarrow> sid \<Rightarrow> target \<Rightarrow> sid set" where
  "recipients m s t =
     (case t of
        ToSender \<Rightarrow> {s}
      | ToGroup g \<Rightarrow> m g
      | ToGroupExcept g x \<Rightarrow> m g - {x})"

text \<open>The events that the actions of a handler called by socket \<open>s\<close> deliver, each with
  the sockets that receive it, and the groups afterwards.\<close>

fun deliver :: "sid \<Rightarrow> action list \<Rightarrow> groups \<Rightarrow> (sid set \<times> event) list" where
  "deliver s [] m = []"
| "deliver s (JoinGroup g # acts) m = deliver s acts (m(g := insert s (m g)))"
| "deliver s (LeaveGroup g # acts) m = deliver s acts (m(g := m g - {s}))"
| "deliver s (Emit t e # acts) m = (recipients m s t, e) # deliver s acts m"
| "deliver s (Ack a # acts) m = deliver s acts m"

fun regroup :: "sid \<Rightarrow> action list \<Rightarrow> groups \<Rightarrow> groups" where
  "regroup s [] m = m"
| "regroup s (JoinGroup g # acts) m = regroup s acts (m(g := insert s (m g)))"
| "regroup s (LeaveGroup g # acts) m = regroup s acts (m(g := m g - {s}))"
| "regroup s (a # acts) m = regroup s acts m"

text \<open>The groups as the handler of a step finds them.\<close>

fun groups_at :: "step \<Rightarrow> groups \<Rightarrow> groups" where
  "groups_at (clk, s, Connection) m = m(s := insert s (m s))"
| "groups_at (clk, s, Disconnect) m = (\<lambda>g. m g - {s})"
| "groups_at (clk, s, req) m = m"

text \<open>The deliveries of a sequence of steps, given what each step did.\<close>

fun deliveries :: "groups \<Rightarrow> step list \<Rightarrow> action list list \<Rightarrow> (sid set \<times> event) list list" where
  "deliveries m (st # sts) (acts # rest) =
     deliver (fst (snd st)) acts (groups_at st m)
     # deliveries (regroup (fst (snd st)) acts (groups_at st m)) sts rest"
| "deliveries m sts rest = []"

section \<open>The earlier server\<close>

text \<open>
  \<^verbatim>\<open>src/server.js\<close> has the same state without the statistics, no acknowledgments,
  no validation and no \<^verbatim>\<open>try\<close>: an exception in a handler is not caught. These are
  its handlers for \<^verbatim>\<open>create\<close>, \<^verbatim>\<open>join\<close>, the three negotiation payloads,
  \<^verbatim>\<open>call_connected\<close> and \<^verbatim>\<open>disconnect\<close>. A room it creates has no \<open>creator\<close>.

  Its \<^verbatim>\<open>create\<close> assigns to \<^verbatim>\<open>db.rooms[room]\<close> whatever is there. Under
  \<^verbatim>\<open>__proto__\<close> the assignment adds no key but replaces the prototype of
  \<^verbatim>\<open>db.rooms\<close>; the state has no place for that, and the model gives no result there.
\<close>

definition server_js_on_create ::
  "time \<Rightarrow> sid \<Rightarrow> string \<Rightarrow> server \<Rightarrow> (server \<times> action list) option" where
  "server_js_on_create now socketId code d =
     (if code = ''__proto__'' then None
      else Some
        (d\<lparr>rooms := AList.update code
               \<lparr>createdAt = now, participants = [socketId], creator = None,
                connectedAt = None\<rparr>
               (rooms d)\<rparr>,
         [JoinGroup code]))"

definition server_js_on_join :: "sid \<Rightarrow> string \<Rightarrow> server \<Rightarrow> server \<times> action list" where
  "server_js_on_join socketId code d =
     (case map_of (rooms d) code of
        None \<Rightarrow>
          if inherits d code then (d\<lparr>crashed := True\<rparr>, [])
          else (d, [Emit ToSender (Ev_error (Message ''Room does not exist''))])
      | Some roomObj \<Rightarrow>
          if length (participants roomObj) \<ge> 2 then (d, [Emit ToSender Ev_full])
          else
            (let roomObj' = roomObj\<lparr>participants := participants roomObj @ [socketId]\<rparr>;
                 d1 = d\<lparr>rooms := AList.update code roomObj' (rooms d)\<rparr>;
                 (d2, acts_pending) = deliver_pending code d1
             in (d2, [JoinGroup code] @ acts_pending
                       @ [Emit ToSender (Ev_joined code),
                          Emit (ToGroupExcept code socketId) (Ev_joined code)])))"

definition server_js_on_offer :: "sid \<Rightarrow> relay_data \<Rightarrow> server \<Rightarrow> server \<times> action list" where
  "server_js_on_offer socketId data d =
     (d, [Emit (ToGroupExcept (room data) socketId) (Ev_offer data)])"

definition server_js_on_answer :: "sid \<Rightarrow> relay_data \<Rightarrow> server \<Rightarrow> server \<times> action list" where
  "server_js_on_answer socketId data d =
     (d, [Emit (ToGroupExcept (room data) socketId) (Ev_answer data)])"

definition server_js_on_ice :: "sid \<Rightarrow> relay_data \<Rightarrow> server \<Rightarrow> server \<times> action list" where
  "server_js_on_ice socketId data d =
     (d, [Emit (ToGroupExcept (room data) socketId) (Ev_ice data)])"

definition server_js_on_call_connected :: "time \<Rightarrow> string \<Rightarrow> server \<Rightarrow> server \<times> action list" where
  "server_js_on_call_connected now code d =
     (case map_of (rooms d) code of
        Some roomObj \<Rightarrow>
          (d\<lparr>rooms := AList.update code (roomObj\<lparr>connectedAt := Some now\<rparr>) (rooms d)\<rparr>, [])
      | None \<Rightarrow>
          if code = ''__proto__'' then (d\<lparr>inherited_connectedAt := Some now\<rparr>, [])
          else (d, []))"

text \<open>The loop of its \<^verbatim>\<open>disconnect\<close> handler, which writes the call record itself.\<close>

fun server_js_sweep ::
  "(string \<Rightarrow> time) \<Rightarrow> sid \<Rightarrow> string list \<Rightarrow> server \<Rightarrow> server \<times> action list" where
  "server_js_sweep clk socketId [] d = (d, [])"
| "server_js_sweep clk socketId (code # codes) d =
     (case map_of (rooms d) code of
        None \<Rightarrow> server_js_sweep clk socketId codes d
      | Some roomObj \<Rightarrow>
          if socketId \<in> set (participants roomObj)
          then
            (let roomObj' = roomObj\<lparr>participants := remove1 socketId (participants roomObj)\<rparr>;
                 d1 = d\<lparr>rooms := AList.update code roomObj' (rooms d)\<rparr>;
                 d' = (if length (participants roomObj') = 0
                       then (case connectedAt_of d1 roomObj' of
                               None \<Rightarrow> d1
                             | Some started \<Rightarrow>
                                 d1\<lparr>callRecords := callRecords d1 @
                                      [\<lparr>cr_room = code, startTime = started,
                                        endTime = clk code,
                                        duration = of_int (clk code - started) / 1000,
                                        cr_participants = participants roomObj'\<rparr>],
                                    rooms := AList.delete code (rooms d1)\<rparr>)
                       else d1);
                 (d'', acts) = server_js_sweep clk socketId codes d'
             in (d'', Emit (ToGroupExcept code socketId) Ev_leave # acts))
          else server_js_sweep clk socketId codes d)"

definition server_js_on_disconnect ::
  "(string \<Rightarrow> time) \<Rightarrow> sid \<Rightarrow> server \<Rightarrow> server \<times> action list" where
  "server_js_on_disconnect clk socketId d =
     (let (d', acts) = server_js_sweep clk socketId (own_keys (rooms d)) d
      in if inherited_keys d = [] then (d', acts) else (d'\<lparr>crashed := True\<rparr>, acts))"

section \<open>Notions used in the statements\<close>

text \<open>A clock that reads \<open>t\<close> whatever the room.\<close>

definition clock_at :: "time \<Rightarrow> string \<Rightarrow> time" where
  "clock_at t code = t"

text \<open>The transport with no socket in any group.\<close>

definition no_groups :: groups where
  "no_groups g = {}"

text \<open>Every registered room has at most two participants.\<close>

definition capacity_ok :: "server \<Rightarrow> bool" where
  "capacity_ok d = list_all (\<lambda>(code, roomObj). length (participants roomObj) \<le> 2) (rooms d)"

text \<open>Every registered code has at least four characters.\<close>

definition codes_valid :: "server \<Rightarrow> bool" where
  "codes_valid d = list_all (\<lambda>code. 4 \<le> length code) (map fst (rooms d))"

text \<open>The three kinds of negotiation payload, each with its request, the field of
  \<^verbatim>\<open>data\<close> its handler requires, the event it forwards and the message of its
  validation failure.\<close>

datatype relay_kind = KOffer | KAnswer | KIce

fun relay_request :: "relay_kind \<Rightarrow> relay_data \<Rightarrow> request" where
  "relay_request KOffer data = Offer data"
| "relay_request KAnswer data = Answer data"
| "relay_request KIce data = Ice data"

fun relay_field :: "relay_kind \<Rightarrow> relay_data \<Rightarrow> jsval" where
  "relay_field KOffer data = offer data"
| "relay_field KAnswer data = answer data"
| "relay_field KIce data = candidate data"

fun relay_event :: "relay_kind \<Rightarrow> relay_data \<Rightarrow> event" where
  "relay_event KOffer data = Ev_offer data"
| "relay_event KAnswer data = Ev_answer data"
| "relay_event KIce data = Ev_ice data"

fun invalid_message :: "relay_kind \<Rightarrow> failure" where
  "invalid_message KOffer = Message ''Invalid offer data''"
| "invalid_message KAnswer = Message ''Invalid answer data''"
| "invalid_message KIce = Message ''Invalid ICE candidate data''"

text \<open>
  A call record accounts for its room in state \<open>d\<close> under the clock \<open>clk\<close>: its start is
  the room's \<open>connectedAt\<close> (what \<^verbatim>\<open>roomObj.connectedAt\<close> evaluates to), its end is the
  clock reading taken for the room, and its duration is their difference in seconds.
\<close>

definition accounts_for :: "(string \<Rightarrow> time) \<Rightarrow> server \<Rightarrow> call_record \<Rightarrow> bool" where
  "accounts_for clk d r =
     (case map_of (rooms d) (cr_room r) of
        None \<Rightarrow> False
      | Some roomObj \<Rightarrow>
          connectedAt_of d roomObj = Some (startTime r)
          \<and> endTime r = clk (cr_room r)
          \<and> duration r = of_int (endTime r - startTime r) / 1000)"


text \<open>The call records of \<open>d'\<close> beyond those of \<open>d\<close>.\<close>

definition appended_records :: "server \<Rightarrow> server \<Rightarrow> call_record list" where
  "appended_records d d' = drop (length (callRecords d)) (callRecords d')"

text \<open>The \<^verbatim>\<open>peer_joined\<close> notifications and the \<^verbatim>\<open>pending_messages\<close> deliveries
  among the actions of a handler, whatever their target.\<close>

fun is_peer_joined :: "action \<Rightarrow> bool" where
  "is_peer_joined (Emit t Ev_peer_joined) = True"
| "is_peer_joined a = False"


text \<open>The sets of sockets that receive the event \<open>e\<close>, one for each delivery of it.\<close>

definition delivered :: "event \<Rightarrow> (sid set \<times> event) list \<Rightarrow> sid set list" where
  "delivered e ds = map fst (filter (\<lambda>p. snd p = e) ds)"





text \<open>A join of a registered room that has exactly one participant: the join that takes
  the number of participants from one to two.\<close>

definition second_join :: "server \<Rightarrow> request \<Rightarrow> bool" where
  "second_join d req =
     (case req of
        Join code \<Rightarrow>
          (case map_of (rooms d) code of
             None \<Rightarrow> False
           | Some roomObj \<Rightarrow> code \<noteq> [] \<and> length (participants roomObj) = 1)
      | _ \<Rightarrow> False)"

section \<open>Properties\<close>

subsection \<open>Lookups in the registry\<close>

lemma map_of_update_if:
  "map_of (AList.update k v al) k' = (if k' = k then Some v else map_of al k')"
  by (simp add: update_conv')

lemma map_of_delete_if:
  "map_of (AList.delete k al) k' = (if k' = k then None else map_of al k')"
  by (simp add: delete_conv')

lemma set_update_cases:
  "p \<in> set (AList.update k v al) \<Longrightarrow> p = (k, v) \<or> p \<in> set al"
  by (induction al) (auto split: if_splits)

lemma set_delete_cases: "p \<in> set (AList.delete k al) \<Longrightarrow> p \<in> set al"
  by (simp add: AList.delete_eq)

lemma inherits_rooms_update [simp]: "inherits (d\<lparr>rooms := rs\<rparr>) name = inherits d name"
  by (simp add: inherits_def)

lemma inherits_offlineMessages_update [simp]:
  "inherits (d\<lparr>offlineMessages := ms\<rparr>) name = inherits d name"
  by (simp add: inherits_def)

lemma inherits_callRecords_update [simp]:
  "inherits (d\<lparr>callRecords := cs\<rparr>) name = inherits d name"
  by (simp add: inherits_def)

lemma inherits_stats_update [simp]: "inherits (d\<lparr>stats := st\<rparr>) name = inherits d name"
  by (simp add: inherits_def)

lemma inherits_crashed_update [simp]: "inherits (d\<lparr>crashed := b\<rparr>) name = inherits d name"
  by (simp add: inherits_def)

lemma connectedAt_of_rooms_update [simp]:
  "connectedAt_of (d\<lparr>rooms := rs\<rparr>) roomObj = connectedAt_of d roomObj"
  by (simp add: connectedAt_of_def split: option.splits)

lemma connectedAt_of_cong:
  "inherited_connectedAt d' = inherited_connectedAt d \<Longrightarrow> connectedAt r' = connectedAt r \<Longrightarrow>
     connectedAt_of d' r' = connectedAt_of d r"
  by (simp add: connectedAt_of_def split: option.splits)

lemma connectedAt_of_own:
  "connectedAt roomObj = Some t \<Longrightarrow> connectedAt_of d roomObj = Some t"
  by (simp add: connectedAt_of_def)

lemma connectedAt_of_participants_update [simp]:
  "connectedAt_of d (roomObj\<lparr>participants := ps\<rparr>) = connectedAt_of d roomObj"
  by (simp add: connectedAt_of_def)

subsection \<open>The pieces of the handlers\<close>

lemma deliver_pending_keeps:
  "rooms (fst (deliver_pending code d)) = rooms d"
  "callRecords (fst (deliver_pending code d)) = callRecords d"
  "stats (fst (deliver_pending code d)) = stats d"
  "inherited_connectedAt (fst (deliver_pending code d)) = inherited_connectedAt d"
  "crashed (fst (deliver_pending code d)) = crashed d"
  by (simp_all add: deliver_pending_def split: option.splits)

lemma deliver_pending_rooms_update:
  "deliver_pending code (d\<lparr>rooms := rs\<rparr>)
     = ((fst (deliver_pending code d))\<lparr>rooms := rs\<rparr>, snd (deliver_pending code d))"
  by (simp add: deliver_pending_def split: option.splits)

lemma on_join_failure:
  assumes "c = [] \<or> map_of (rooms d) c = None
      \<or> (\<exists>roomObj. map_of (rooms d) c = Some roomObj \<and> 2 \<le> length (participants roomObj))"
  shows "fst (on_join s c d) = d"
  using assms by (auto simp: on_join_def join_failed_def)

lemma on_join_success:
  assumes "c \<noteq> []" and "map_of (rooms d) c = Some roomObj"
    and "length (participants roomObj) < 2"
  shows "on_join s c d =
    ((fst (deliver_pending c d))
       \<lparr>rooms := AList.update c (roomObj\<lparr>participants := participants roomObj @ [s]\<rparr>) (rooms d),
        stats := (if length (participants roomObj) = 1
                  then (stats d)\<lparr>totalCalls := totalCalls (stats d) + 1\<rparr> else stats d)\<rparr>,
     [JoinGroup c] @ snd (deliver_pending c d) @ [Emit (ToGroup c) (Ev_joined c)]
     @ (if length (participants roomObj) = 1
        then [Emit (ToGroup (hd (participants roomObj))) Ev_peer_joined] else [])
     @ [Ack (AckOk (Some c))])"
proof (cases "participants roomObj")
  case Nil
  then show ?thesis
    using assms
    by (simp add: on_join_def Let_def split_beta deliver_pending_rooms_update
        deliver_pending_keeps)
next
  case (Cons p ps)
  then have ps: "ps = []" using assms(3) by simp
  show ?thesis
    using assms Cons ps
    by (simp add: on_join_def Let_def split_beta deliver_pending_rooms_update
        deliver_pending_keeps)
qed

lemma remove_participant_last:
  assumes "remove1 s (participants roomObj) = []" and "connectedAt_of d roomObj = Some started"
  shows "remove_participant now code roomObj s d =
           d\<lparr>callRecords := callRecords d @
                [\<lparr>cr_room = code, startTime = started, endTime = now,
                  duration = of_int (now - started) / 1000,
                  cr_participants = []\<rparr>],
              rooms := AList.delete code (rooms d)\<rparr>"
  using assms
  by (simp add: remove_participant_def finalizeCallRecord_def Let_def map_of_update_if
      delete_update_same)

lemma remove_participant_stays:
  assumes "\<not> (remove1 s (participants roomObj) = [] \<and> connectedAt_of d roomObj \<noteq> None)"
  shows "remove_participant now code roomObj s d =
           d\<lparr>rooms := AList.update code
                 (roomObj\<lparr>participants := remove1 s (participants roomObj)\<rparr>) (rooms d)\<rparr>"
  using assms by (auto simp: remove_participant_def Let_def)

lemma remove_participant_cases:
  obtains (last) started where "remove1 s (participants roomObj) = []"
      and "connectedAt_of d roomObj = Some started"
      and "remove_participant now code roomObj s d =
           d\<lparr>callRecords := callRecords d @
                [\<lparr>cr_room = code, startTime = started, endTime = now,
                  duration = of_int (now - started) / 1000,
                  cr_participants = []\<rparr>],
              rooms := AList.delete code (rooms d)\<rparr>"
  | (stays) "\<not> (remove1 s (participants roomObj) = [] \<and> connectedAt_of d roomObj \<noteq> None)"
      and "remove_participant now code roomObj s d =
           d\<lparr>rooms := AList.update code
                 (roomObj\<lparr>participants := remove1 s (participants roomObj)\<rparr>) (rooms d)\<rparr>"
proof (cases "remove1 s (participants roomObj) = [] \<and> connectedAt_of d roomObj \<noteq> None")
  case True
  then obtain started where "connectedAt_of d roomObj = Some started" by auto
  with True show ?thesis using last remove_participant_last by blast
next
  case False
  then show ?thesis using stays remove_participant_stays by blast
qed

lemma remove_participant_keeps:
  "offlineMessages (remove_participant now code roomObj s d) = offlineMessages d"
  "inherited_connectedAt (remove_participant now code roomObj s d) = inherited_connectedAt d"
  "crashed (remove_participant now code roomObj s d) = crashed d"
  by (cases rule: remove_participant_cases [of s roomObj d now code]; simp)+

lemma sweep_keeps:
  "offlineMessages (fst (sweep clk s codes d)) = offlineMessages d
   \<and> inherited_connectedAt (fst (sweep clk s codes d)) = inherited_connectedAt d
   \<and> crashed (fst (sweep clk s codes d)) = crashed d"
proof (induction codes arbitrary: d)
  case Nil
  then show ?case by simp
next
  case (Cons code codes)
  then show ?case
    by (simp add: Let_def split_beta remove_participant_keeps split: option.splits)
qed

text \<open>The state and the actions of the disconnect handler are those of the loop over the
  own keys; an inherited key only ends the process afterwards.\<close>

lemma cleanupSocketRooms_sweep:
  "rooms (fst (cleanupSocketRooms clk s d)) = rooms (fst (sweep clk s (own_keys (rooms d)) d))"
  "callRecords (fst (cleanupSocketRooms clk s d))
     = callRecords (fst (sweep clk s (own_keys (rooms d)) d))"
  "offlineMessages (fst (cleanupSocketRooms clk s d)) = offlineMessages d"
  "inherited_connectedAt (fst (cleanupSocketRooms clk s d)) = inherited_connectedAt d"
  "snd (cleanupSocketRooms clk s d) = snd (sweep clk s (own_keys (rooms d)) d)"
  by (simp_all add: cleanupSocketRooms_def Let_def split_beta sweep_keeps)

lemma handle_crashed: "crashed d \<Longrightarrow> handle st d = (d, [])"
  by (simp add: handle_def)

lemma handle_running: "\<not> crashed d \<Longrightarrow> handle st d = dispatch st d"
  by (simp add: handle_def)

subsection \<open>The capacity of a room\<close>

lemma rooms_finalizeCallRecord:
  "p \<in> set (rooms (finalizeCallRecord now code d)) \<Longrightarrow> p \<in> set (rooms d)"
  by (auto simp: finalizeCallRecord_def split: option.splits dest: set_delete_cases)

lemma rooms_remove_participant:
  "p \<in> set (rooms (remove_participant now code roomObj s d)) \<Longrightarrow>
     p \<in> set (rooms d) \<or> p = (code, roomObj\<lparr>participants := remove1 s (participants roomObj)\<rparr>)"
  by (auto simp: remove_participant_def Let_def split: if_splits
      dest!: rooms_finalizeCallRecord set_update_cases)

lemma capacity_remove_participant:
  assumes "capacity_ok d" and "map_of (rooms d) code = Some roomObj"
  shows "capacity_ok (remove_participant now code roomObj s d)"
proof -
  have "(code, roomObj) \<in> set (rooms d)"
    using assms(2) by (rule map_of_SomeD)
  then have "length (participants roomObj) \<le> 2"
    using assms(1) by (auto simp: capacity_ok_def list_all_iff)
  moreover have "length (remove1 s (participants roomObj)) \<le> length (participants roomObj)"
    by (simp add: length_remove1)
  ultimately show ?thesis
    using assms(1)
    by (auto simp: capacity_ok_def list_all_iff dest!: rooms_remove_participant)
qed

lemma capacity_sweep:
  "capacity_ok d \<Longrightarrow> capacity_ok (fst (sweep clk s codes d))"
proof (induction codes arbitrary: d)
  case Nil
  then show ?case by simp
next
  case (Cons code codes)
  show ?case
  proof (cases "map_of (rooms d) code")
    case None
    then show ?thesis using Cons by simp
  next
    case (Some roomObj)
    show ?thesis
    proof (cases "s \<in> set (participants roomObj)")
      case True
      have "capacity_ok (remove_participant (clk code) code roomObj s d)"
        using Cons.prems Some by (rule capacity_remove_participant)
      then have "capacity_ok (fst (sweep clk s codes (remove_participant (clk code) code roomObj s d)))"
        by (rule Cons.IH)
      then show ?thesis using Some True by (simp add: Let_def split_beta)
    next
      case False
      then show ?thesis using Some Cons by simp
    qed
  qed
qed

lemma capacity_cleanupRoom:
  "capacity_ok d \<Longrightarrow> cleanupRoom now code s d = Inr d' \<Longrightarrow> capacity_ok d'"
  by (auto simp: cleanupRoom_def split: option.splits if_splits
      intro: capacity_remove_participant)

lemma capacity_rooms_eq: "rooms d' = rooms d \<Longrightarrow> capacity_ok d' = capacity_ok d"
  by (simp add: capacity_ok_def)

lemma capacity_on_join:
  assumes "capacity_ok d"
  shows "capacity_ok (fst (on_join s code d))"
proof (cases "code \<noteq> [] \<and> (\<exists>roomObj. map_of (rooms d) code = Some roomObj
    \<and> length (participants roomObj) < 2)")
  case True
  then obtain roomObj where r: "code \<noteq> []" "map_of (rooms d) code = Some roomObj"
    "length (participants roomObj) < 2" by blast
  have "length (participants roomObj @ [s]) \<le> 2" using r(3) by simp
  then show ?thesis
    using assms
    by (auto simp: on_join_success [OF r] capacity_ok_def list_all_iff
        dest!: set_update_cases)
next
  case False
  then have "code = [] \<or> map_of (rooms d) code = None
      \<or> (\<exists>roomObj. map_of (rooms d) code = Some roomObj \<and> 2 \<le> length (participants roomObj))"
    by (cases "map_of (rooms d) code") (auto simp: not_less)
  then have "fst (on_join s code d) = d" by (rule on_join_failure)
  then show ?thesis using assms by simp
qed

lemma capacity_dispatch:
  assumes "capacity_ok d"
  shows "capacity_ok (fst (dispatch st d))"
proof -
  obtain clk s req where st: "st = (clk, s, req)" by (cases st) auto
  show ?thesis
  proof (cases req)
    case Connection
    then show ?thesis using assms st by (simp add: on_connection_def capacity_ok_def)
  next
    case (Create code)
    then show ?thesis using assms st
      by (auto simp: on_create_def capacity_ok_def list_all_iff dest!: set_update_cases)
  next
    case (Join code)
    then show ?thesis using assms st by (simp add: capacity_on_join)
  next
    case (Offer data)
    then show ?thesis using assms st
      by (simp add: on_offer_def split: sum.splits bool.splits)
  next
    case (Answer data)
    then show ?thesis using assms st
      by (simp add: on_answer_def split: sum.splits bool.splits)
  next
    case (Ice data)
    then show ?thesis using assms st
      by (simp add: on_ice_def split: sum.splits bool.splits)
  next
    case (RecordingStarted code)
    then show ?thesis using assms st
      by (simp add: on_recording_started_def split: sum.splits bool.splits)
  next
    case (RecordingStopped code)
    then show ?thesis using assms st
      by (simp add: on_recording_stopped_def split: sum.splits bool.splits)
  next
    case (LeaveMessage code msg)
    then show ?thesis using assms st
      by (simp add: on_leave_message_def Let_def capacity_ok_def)
  next
    case (CallConnected code)
    then show ?thesis using assms st
      by (auto simp: on_call_connected_def capacity_ok_def list_all_iff
          split: option.splits if_splits dest!: set_update_cases map_of_SomeD)
  next
    case (Leave code)
    then show ?thesis using assms st
      by (auto simp: on_leave_def split: sum.splits intro: capacity_cleanupRoom)
  next
    case Disconnect
    then show ?thesis using assms st
      by (simp add: on_disconnect_def capacity_sweep
          capacity_rooms_eq [OF cleanupSocketRooms_sweep(1)])
  qed
qed

lemma capacity_handle:
  assumes "capacity_ok d"
  shows "capacity_ok (fst (handle st d))"
  using assms by (simp add: handle_def capacity_dispatch)

lemma capacity_run: "capacity_ok d \<Longrightarrow> capacity_ok (fst (run d sts))"
proof (induction sts arbitrary: d)
  case Nil
  then show ?case by simp
next
  case (Cons st sts)
  have "capacity_ok (fst (handle st d))" using Cons.prems by (rule capacity_handle)
  then have "capacity_ok (fst (run (fst (handle st d)) sts))" by (rule Cons.IH)
  then show ?case by (simp add: split_beta)
qed

text \<open>
  Claim C1. The fresh registry has no room with more than two participants, every request
  of every kind keeps it so, whatever the state it starts from, and so does every sequence
  of requests; hence after any sequence of requests from the fresh state the participant
  list of any registered room has length 0, 1 or 2.
\<close>

theorem participants_at_most_two:
  "capacity_ok initial_db
   \<and> (capacity_ok d \<longrightarrow> capacity_ok (fst (handle st d)) \<and> capacity_ok (fst (run d sts)))
   \<and> (\<forall>roomObj. map_of (rooms (fst (run initial_db sts))) code = Some roomObj \<longrightarrow>
        length (participants roomObj) \<in> {0, 1, 2})"
proof -
  have init: "capacity_ok initial_db" by (simp add: capacity_ok_def initial_db_def)
  have "length (participants roomObj) \<in> {0, 1, 2}"
    if "map_of (rooms (fst (run initial_db sts))) code = Some roomObj" for roomObj
  proof -
    have "capacity_ok (fst (run initial_db sts))" using init by (rule capacity_run)
    moreover have "(code, roomObj) \<in> set (rooms (fst (run initial_db sts)))"
      using that by (rule map_of_SomeD)
    ultimately have "length (participants roomObj) \<le> 2"
      by (auto simp: capacity_ok_def list_all_iff)
    then have "length (participants roomObj) = 0 \<or> length (participants roomObj) = 1
        \<or> length (participants roomObj) = 2"
      by arith
    then show ?thesis by simp
  qed
  then show ?thesis using init capacity_handle capacity_run by blast
qed

theorem participants_at_most_two_witness:
  "capacity_ok initial_db
   \<and> capacity_ok (fst (run initial_db
         [(clock_at 1000, ''A'', Create ''ABCD''), (clock_at 2000, ''B'', Join ''ABCD''),
          (clock_at 3000, ''C'', Join ''ABCD'')]))
   \<and> map_of (rooms (fst (run initial_db
         [(clock_at 1000, ''A'', Create ''ABCD''), (clock_at 2000, ''B'', Join ''ABCD''),
          (clock_at 3000, ''C'', Join ''ABCD'')]))) ''ABCD''
       = Some \<lparr>createdAt = 1000, participants = [''A'', ''B''], creator = Some ''A'',
               connectedAt = None\<rparr>
   \<and> length [''A'', ''B''] \<in> {0, 1, 2 :: nat}"
  using participants_at_most_two [of initial_db "(clock_at 1000, ''A'', Create ''ABCD'')"
      "[(clock_at 1000, ''A'', Create ''ABCD''), (clock_at 2000, ''B'', Join ''ABCD''),
        (clock_at 3000, ''C'', Join ''ABCD'')]" "''ABCD''"]
  by (simp add: initial_db_def clock_at_def handle_def on_create_def on_join_def
      join_failed_def deliver_pending_def inherits_def object_prototype_names_def Let_def)

subsection \<open>Registered codes\<close>

lemma keys_remove_participant:
  assumes "map_of (rooms d) code = Some roomObj"
  shows "fst ` set (rooms (remove_participant now code roomObj s d)) \<subseteq> fst ` set (rooms d)"
proof -
  have "(code, roomObj) \<in> set (rooms d)" using assms by (rule map_of_SomeD)
  then have k: "code \<in> fst ` set (rooms d)" by force
  show ?thesis
  proof
    fix c
    assume "c \<in> fst ` set (rooms (remove_participant now code roomObj s d))"
    then obtain p where p: "p \<in> set (rooms (remove_participant now code roomObj s d))"
      and c: "c = fst p" by auto
    from p have "p \<in> set (rooms d)
        \<or> p = (code, roomObj\<lparr>participants := remove1 s (participants roomObj)\<rparr>)"
      by (rule rooms_remove_participant)
    then show "c \<in> fst ` set (rooms d)" using k c by force
  qed
qed

lemma keys_sweep:
  "fst ` set (rooms (fst (sweep clk s codes d))) \<subseteq> fst ` set (rooms d)"
proof (induction codes arbitrary: d)
  case Nil
  then show ?case by simp
next
  case (Cons code codes)
  show ?case
  proof (cases "map_of (rooms d) code")
    case None
    then show ?thesis using Cons by simp
  next
    case (Some roomObj)
    show ?thesis
    proof (cases "s \<in> set (participants roomObj)")
      case True
      have "fst ` set (rooms (fst (sweep clk s codes (remove_participant (clk code) code roomObj s d))))
              \<subseteq> fst ` set (rooms (remove_participant (clk code) code roomObj s d))"
        by (rule Cons.IH)
      also have "\<dots> \<subseteq> fst ` set (rooms d)"
        using Some by (rule keys_remove_participant)
      finally show ?thesis using Some True by (simp add: Let_def split_beta)
    next
      case False
      then show ?thesis using Some Cons by simp
    qed
  qed
qed

lemma keys_cleanupRoom:
  "cleanupRoom now code s d = Inr d' \<Longrightarrow> fst ` set (rooms d') \<subseteq> fst ` set (rooms d)"
  using keys_remove_participant [of d code _ now s]
  by (auto simp: cleanupRoom_def split: option.splits if_splits)

lemma keys_update_present:
  "map_of al k = Some v \<Longrightarrow> fst ` set (AList.update k v' al) = fst ` set al"
  by (auto simp: dom_update dest!: map_of_SomeD intro: rev_image_eqI)

lemma keys_on_join: "fst ` set (rooms (fst (on_join s code d))) \<subseteq> fst ` set (rooms d)"
proof (cases "code \<noteq> [] \<and> (\<exists>roomObj. map_of (rooms d) code = Some roomObj
    \<and> length (participants roomObj) < 2)")
  case True
  then obtain roomObj where r: "code \<noteq> []" "map_of (rooms d) code = Some roomObj"
    "length (participants roomObj) < 2" by blast
  show ?thesis by (simp add: on_join_success [OF r] keys_update_present [OF r(2)])
next
  case False
  then have "code = [] \<or> map_of (rooms d) code = None
      \<or> (\<exists>roomObj. map_of (rooms d) code = Some roomObj \<and> 2 \<le> length (participants roomObj))"
    by (cases "map_of (rooms d) code") (auto simp: not_less)
  then have "fst (on_join s code d) = d" by (rule on_join_failure)
  then show ?thesis by simp
qed

lemma keys_dispatch:
  "fst ` set (rooms (fst (dispatch st d))) \<subseteq> fst ` set (rooms d) \<union> {code. 4 \<le> length code}"
proof -
  obtain clk s req where st: "st = (clk, s, req)" by (cases st) auto
  show ?thesis
  proof (cases req)
    case Connection
    then show ?thesis using st by (simp add: on_connection_def)
  next
    case (Create code)
    then show ?thesis using st by (auto simp: on_create_def dom_update)
  next
    case (Join code)
    then show ?thesis using st keys_on_join [of s code d] by auto
  next
    case (Offer data)
    then show ?thesis using st by (simp add: on_offer_def split: sum.splits bool.splits)
  next
    case (Answer data)
    then show ?thesis using st by (simp add: on_answer_def split: sum.splits bool.splits)
  next
    case (Ice data)
    then show ?thesis using st by (simp add: on_ice_def split: sum.splits bool.splits)
  next
    case (RecordingStarted code)
    then show ?thesis using st by (simp add: on_recording_started_def split: sum.splits bool.splits)
  next
    case (RecordingStopped code)
    then show ?thesis using st by (simp add: on_recording_stopped_def split: sum.splits bool.splits)
  next
    case (LeaveMessage code msg)
    then show ?thesis using st by (simp add: on_leave_message_def Let_def)
  next
    case (CallConnected code)
    then show ?thesis using st
      by (auto simp: on_call_connected_def keys_update_present split: option.splits if_splits)
  next
    case (Leave code)
    then show ?thesis using st keys_cleanupRoom [of "clk code" code s d]
      by (auto simp: on_leave_def split: sum.splits)
  next
    case Disconnect
    then show ?thesis using st keys_sweep [of clk s "own_keys (rooms d)" d]
      by (auto simp: on_disconnect_def cleanupSocketRooms_sweep)
  qed
qed

lemma keys_handle:
  "fst ` set (rooms (fst (handle st d))) \<subseteq> fst ` set (rooms d) \<union> {code. 4 \<le> length code}"
  using keys_dispatch [of st d] by (simp add: handle_def)

lemma codes_valid_iff: "codes_valid d \<longleftrightarrow> fst ` set (rooms d) \<subseteq> {code. 4 \<le> length code}"
  by (auto simp: codes_valid_def list_all_iff)

lemma codes_valid_run: "codes_valid d \<Longrightarrow> codes_valid (fst (run d sts))"
proof (induction sts arbitrary: d)
  case Nil
  then show ?case by simp
next
  case (Cons st sts)
  have "codes_valid (fst (handle st d))"
    using Cons.prems keys_handle [of st d] unfolding codes_valid_iff by blast
  then have "codes_valid (fst (run (fst (handle st d)) sts))" by (rule Cons.IH)
  then show ?case by (simp add: split_beta)
qed

lemma registered_code_length:
  assumes "map_of (rooms (fst (run initial_db sts))) code \<noteq> None"
  shows "4 \<le> length code"
proof -
  have "codes_valid initial_db" by (simp add: codes_valid_def initial_db_def)
  then have "codes_valid (fst (run initial_db sts))" by (rule codes_valid_run)
  moreover obtain roomObj where "map_of (rooms (fst (run initial_db sts))) code = Some roomObj"
    using assms by auto
  then have "(code, roomObj) \<in> set (rooms (fst (run initial_db sts)))" by (rule map_of_SomeD)
  then have "code \<in> fst ` set (rooms (fst (run initial_db sts)))" by force
  ultimately show ?thesis by (auto simp: codes_valid_iff)
qed

subsection \<open>Creating a room\<close>

text \<open>
  Claim C2. A \<^verbatim>\<open>create\<close> request with an empty code or a code of fewer than four
  characters fails with \<^verbatim>\<open>Invalid room code\<close>. With a code that is already
  registered it fails with \<^verbatim>\<open>Room already exists\<close>: for any code of four or more
  characters in any state, and for every registered code in every state reached from the
  fresh one (no shorter code is ever registered there); in particular a second create right
  after a successful one fails so. A create succeeds for a code of four or more
  characters that is not registered and is not the name of an inherited value; for such a
  name it fails with \<^verbatim>\<open>Room already exists\<close> too. Whenever the acknowledgment is a
  failure the state is unchanged, and whenever it is a success the room is registered
  with exactly the creator as its participants.
\<close>

theorem create_room_contract:
  "(length code < 4 \<longrightarrow>
      on_create now s code d = (d, [Ack (AckErr (Message ''Invalid room code''))]))
   \<and> (4 \<le> length code \<and> map_of (rooms d) code \<noteq> None \<longrightarrow>
        on_create now s code d = (d, [Ack (AckErr (Message ''Room already exists''))]))
   \<and> (d = fst (run initial_db sts) \<and> map_of (rooms d) code \<noteq> None \<longrightarrow>
        on_create now s code d = (d, [Ack (AckErr (Message ''Room already exists''))]))
   \<and> (4 \<le> length code \<and> map_of (rooms d) code = None \<and> inherits d code \<longrightarrow>
        on_create now s code d = (d, [Ack (AckErr (Message ''Room already exists''))]))
   \<and> (4 \<le> length code \<and> map_of (rooms d) code = None \<and> \<not> inherits d code \<longrightarrow>
        snd (on_create now s code d) = [JoinGroup code, Ack (AckOk (Some code))]
        \<and> map_of (rooms (fst (on_create now s code d))) code
            = Some \<lparr>createdAt = now, participants = [s], creator = Some s, connectedAt = None\<rparr>
        \<and> on_create later s' code (fst (on_create now s code d))
            = (fst (on_create now s code d), [Ack (AckErr (Message ''Room already exists''))]))
   \<and> (\<forall>e. Ack (AckErr e) \<in> set (snd (on_create now s code d)) \<longrightarrow>
        fst (on_create now s code d) = d)
   \<and> (\<forall>r. Ack (AckOk r) \<in> set (snd (on_create now s code d)) \<longrightarrow>
        map_of (rooms (fst (on_create now s code d))) code
          = Some \<lparr>createdAt = now, participants = [s], creator = Some s, connectedAt = None\<rparr>)"
proof -
  have short: "on_create now s code d = (d, [Ack (AckErr (Message ''Invalid room code''))])"
    if "length code < 4"
    using that by (simp add: on_create_def)
  have taken: "on_create now s code d = (d, [Ack (AckErr (Message ''Room already exists''))])"
    if "4 \<le> length code" and "map_of (rooms d) code \<noteq> None"
    using that by (auto simp: on_create_def)
  have reach: "on_create now s code d = (d, [Ack (AckErr (Message ''Room already exists''))])"
    if "d = fst (run initial_db sts)" and "map_of (rooms d) code \<noteq> None"
    using that taken registered_code_length [of sts code] by simp
  have inherited: "on_create now s code d = (d, [Ack (AckErr (Message ''Room already exists''))])"
    if "4 \<le> length code" and "map_of (rooms d) code = None" and "inherits d code"
    using that by (auto simp: on_create_def)
  have fresh: "snd (on_create now s code d) = [JoinGroup code, Ack (AckOk (Some code))]
        \<and> map_of (rooms (fst (on_create now s code d))) code
            = Some \<lparr>createdAt = now, participants = [s], creator = Some s, connectedAt = None\<rparr>
        \<and> on_create later s' code (fst (on_create now s code d))
            = (fst (on_create now s code d), [Ack (AckErr (Message ''Room already exists''))])"
    if "4 \<le> length code" and "map_of (rooms d) code = None" and "\<not> inherits d code"
    using that by (auto simp: on_create_def map_of_update_if)
  have failure: "fst (on_create now s code d) = d"
    if "Ack (AckErr e) \<in> set (snd (on_create now s code d))" for e
    using that by (auto simp: on_create_def split: if_splits)
  have success: "map_of (rooms (fst (on_create now s code d))) code
          = Some \<lparr>createdAt = now, participants = [s], creator = Some s, connectedAt = None\<rparr>"
    if "Ack (AckOk r) \<in> set (snd (on_create now s code d))" for r
    using that by (auto simp: on_create_def map_of_update_if split: if_splits)
  show ?thesis using short taken reach inherited fresh failure success by blast
qed

theorem create_room_contract_witness:
  "on_create 1000 ''A'' ''ABC'' initial_db
     = (initial_db, [Ack (AckErr (Message ''Invalid room code''))])
   \<and> on_create 1000 ''A'' [] initial_db
     = (initial_db, [Ack (AckErr (Message ''Invalid room code''))])
   \<and> on_create 1000 ''A'' ''toString'' initial_db
     = (initial_db, [Ack (AckErr (Message ''Room already exists''))])
   \<and> map_of (rooms (fst (on_create 1000 ''A'' ''ABCD'' initial_db))) ''ABCD''
       = Some \<lparr>createdAt = 1000, participants = [''A''], creator = Some ''A'', connectedAt = None\<rparr>
   \<and> on_create 2000 ''B'' ''ABCD'' (fst (on_create 1000 ''A'' ''ABCD'' initial_db))
       = (fst (on_create 1000 ''A'' ''ABCD'' initial_db),
          [Ack (AckErr (Message ''Room already exists''))])
   \<and> on_create 2000 ''B'' ''ABCD'' (fst (run initial_db [(clock_at 1000, ''A'', Create ''ABCD'')]))
       = (fst (run initial_db [(clock_at 1000, ''A'', Create ''ABCD'')]),
          [Ack (AckErr (Message ''Room already exists''))])"
  using create_room_contract [of "''ABC''" 1000 "''A''" initial_db "[]"]
    create_room_contract [of "[]" 1000 "''A''" initial_db "[]"]
    create_room_contract [of "''toString''" 1000 "''A''" initial_db "[]"]
    create_room_contract [of "''ABCD''" 1000 "''A''" initial_db "[]" 2000 "''B''"]
    create_room_contract [of "''ABCD''" 2000 "''B''"
      "fst (run initial_db [(clock_at 1000, ''A'', Create ''ABCD'')])"
      "[(clock_at 1000, ''A'', Create ''ABCD'')]"]
  by (simp add: initial_db_def on_create_def handle_def clock_at_def inherits_def
      object_prototype_names_def)

subsection \<open>Marking a call as connected\<close>

lemma call_connected_contract:
  "(map_of (rooms d) code = None \<and> \<not> inherits d code \<longrightarrow>
      on_call_connected now code d = (d, [Ack (AckErr (Message ''Room not found''))]))
   \<and> (\<forall>roomObj. map_of (rooms d) code = Some roomObj \<longrightarrow>
        snd (on_call_connected now code d) = [Ack (AckOk None)]
        \<and> map_of (rooms (fst (on_call_connected now code d))) code
            = Some (roomObj\<lparr>connectedAt := Some now\<rparr>)
        \<and> (\<forall>later. map_of (rooms (fst (on_call_connected later code
                          (fst (on_call_connected now code d))))) code
            = Some (roomObj\<lparr>connectedAt := Some later\<rparr>)))"
  by (auto simp: on_call_connected_def map_of_update_if inherits_def
      object_prototype_names_def)

text \<open>
  Claim C9 says that a \<^verbatim>\<open>call_connected\<close> request for a code that is not registered
  fails with \<^verbatim>\<open>Room not found\<close>. The handler does not do so when the code is the name
  of an inherited value: on a fresh server, where no room is registered, the request is
  acknowledged with success for \<^verbatim>\<open>toString\<close>, and for \<^verbatim>\<open>__proto__\<close> it is
  acknowledged with success and puts \<^verbatim>\<open>connectedAt\<close> on \<^verbatim>\<open>Object.prototype\<close>.
\<close>

theorem call_connected_inherited_name:
  "map_of (rooms initial_db) ''toString'' = None
   \<and> on_call_connected 7000 ''toString'' initial_db = (initial_db, [Ack (AckOk None)])
   \<and> map_of (rooms initial_db) ''__proto__'' = None
   \<and> on_call_connected 7000 ''__proto__'' initial_db
       = (initial_db\<lparr>inherited_connectedAt := Some 7000\<rparr>, [Ack (AckOk None)])"
  by (simp add: on_call_connected_def initial_db_def inherits_def object_prototype_names_def)

subsection \<open>Leaving a room one is not in\<close>

lemma leave_of_non_participant:
  "includes_participant d code s = Inr False \<Longrightarrow>
     on_leave now s code d
       = (d, [LeaveGroup code, Emit (ToGroupExcept code s) Ev_leave, Ack (AckOk None)])"
  by (auto simp: on_leave_def cleanupRoom_def includes_participant_def
      split: option.splits if_splits)

text \<open>
  Claim C10 says that a \<^verbatim>\<open>leave\<close> naming a room that is not registered is still
  acknowledged with success and still sends the \<^verbatim>\<open>leave\<close> notification. The handler
  does not do so when the code is the name of an inherited value: on a fresh server the
  request for \<^verbatim>\<open>constructor\<close> takes the caller out of the group, then
  \<^verbatim>\<open>cleanupRoom\<close> throws, the acknowledgment is a failure and no notification is sent.
\<close>

theorem leave_inherited_name:
  "map_of (rooms initial_db) ''constructor'' = None
   \<and> on_leave 5000 ''B'' ''constructor'' initial_db
       = (initial_db, [LeaveGroup ''constructor'', Ack (AckErr (TypeError ''indexOf''))])"
  by (simp add: on_leave_def cleanupRoom_def initial_db_def inherits_def
      object_prototype_names_def)

subsection \<open>Joining a room\<close>

lemma join_inherited_name:
  "code \<noteq> [] \<Longrightarrow> map_of (rooms d) code = None \<Longrightarrow> inherits d code \<Longrightarrow>
     on_join s code d
       = (d, [Ack (AckErr (TypeError ''length'')), Emit ToSender (Ev_error (TypeError ''length''))])"
  by (simp add: on_join_def join_failed_def)

text \<open>
  A join with the empty code is refused by the guard \<^verbatim>\<open>!room\<close> with
  \<^verbatim>\<open>Invalid room code\<close>, not with \<^verbatim>\<open>Room does not exist\<close>, although the empty
  code is not registered. And the first participant of a room need not be its creator or
  the first client that joined it: after A creates, B joins, A leaves, C joins and B
  leaves, the only participant is C.
\<close>

theorem join_room_counterexample:
  "map_of (rooms initial_db) [] = None
   \<and> on_join ''B'' [] initial_db
       = (initial_db,
          [Ack (AckErr (Message ''Invalid room code'')),
           Emit ToSender (Ev_error (Message ''Invalid room code''))])
   \<and> Ack (AckErr (Message ''Room does not exist'')) \<notin> set (snd (on_join ''B'' [] initial_db))
   \<and> map_of (rooms (fst (run initial_db
          [(clock_at 1000, ''A'', Create ''ABCD''), (clock_at 2000, ''B'', Join ''ABCD''),
           (clock_at 3000, ''A'', Leave ''ABCD''), (clock_at 4000, ''C'', Join ''ABCD''),
           (clock_at 5000, ''B'', Leave ''ABCD'')]))) ''ABCD''
       = Some \<lparr>createdAt = 1000, participants = [''C''], creator = Some ''A'',
               connectedAt = None\<rparr>"
  by (simp add: initial_db_def handle_def on_join_def join_failed_def on_create_def on_leave_def
      cleanupRoom_def remove_participant_def deliver_pending_def connectedAt_of_def
      inherits_def object_prototype_names_def clock_at_def Let_def)

text \<open>
  Claim C3, amended. A join with the empty code fails with \<^verbatim>\<open>Invalid room code\<close>.
  A join with a non-empty code fails with \<^verbatim>\<open>Room does not exist\<close> when the code is
  not registered and is not the name of an inherited value, and with \<^verbatim>\<open>Room is full\<close>
  when the room has two or more participants; such a failure changes nothing and sends,
  besides the acknowledgment, only an \<^verbatim>\<open>error\<close> event to the caller, nothing to the
  room's group. A join of a registered room with fewer than two participants succeeds and
  leaves the room with the participants it had, followed by the caller.
\<close>

theorem join_room_contract:
  "(code = [] \<longrightarrow>
      on_join s code d
        = (d, [Ack (AckErr (Message ''Invalid room code'')),
               Emit ToSender (Ev_error (Message ''Invalid room code''))]))
   \<and> (code \<noteq> [] \<and> map_of (rooms d) code = None \<and> \<not> inherits d code \<longrightarrow>
        on_join s code d
          = (d, [Ack (AckErr (Message ''Room does not exist'')),
                 Emit ToSender (Ev_error (Message ''Room does not exist''))]))
   \<and> (\<forall>roomObj. code \<noteq> [] \<and> map_of (rooms d) code = Some roomObj
          \<and> 2 \<le> length (participants roomObj) \<longrightarrow>
        on_join s code d
          = (d, [Ack (AckErr (Message ''Room is full'')),
                 Emit ToSender (Ev_error (Message ''Room is full''))]))
   \<and> (\<forall>roomObj. code \<noteq> [] \<and> map_of (rooms d) code = Some roomObj
          \<and> length (participants roomObj) < 2 \<longrightarrow>
        map_of (rooms (fst (on_join s code d))) code
          = Some (roomObj\<lparr>participants := participants roomObj @ [s]\<rparr>)
        \<and> last (snd (on_join s code d)) = Ack (AckOk (Some code)))"
proof -
  have ok: "map_of (rooms (fst (on_join s code d))) code
          = Some (roomObj\<lparr>participants := participants roomObj @ [s]\<rparr>)
        \<and> last (snd (on_join s code d)) = Ack (AckOk (Some code))"
    if "code \<noteq> [] \<and> map_of (rooms d) code = Some roomObj \<and> length (participants roomObj) < 2"
    for roomObj
    using that by (simp add: on_join_success map_of_update_if)
  have rest: "(code = [] \<longrightarrow>
      on_join s code d
        = (d, [Ack (AckErr (Message ''Invalid room code'')),
               Emit ToSender (Ev_error (Message ''Invalid room code''))]))
   \<and> (code \<noteq> [] \<and> map_of (rooms d) code = None \<and> \<not> inherits d code \<longrightarrow>
        on_join s code d
          = (d, [Ack (AckErr (Message ''Room does not exist'')),
                 Emit ToSender (Ev_error (Message ''Room does not exist''))]))
   \<and> (\<forall>roomObj. code \<noteq> [] \<and> map_of (rooms d) code = Some roomObj
          \<and> 2 \<le> length (participants roomObj) \<longrightarrow>
        on_join s code d
          = (d, [Ack (AckErr (Message ''Room is full'')),
                 Emit ToSender (Ev_error (Message ''Room is full''))]))"
    by (simp add: on_join_def join_failed_def)
  show ?thesis using ok rest by blast
qed

theorem join_room_contract_witness:
  "on_join ''B'' ''ZZZZ'' initial_db
     = (initial_db, [Ack (AckErr (Message ''Room does not exist'')),
                     Emit ToSender (Ev_error (Message ''Room does not exist''))])
   \<and> on_join ''B'' [] initial_db
     = (initial_db, [Ack (AckErr (Message ''Invalid room code'')),
                     Emit ToSender (Ev_error (Message ''Invalid room code''))])
   \<and> map_of (rooms (fst (on_join ''B'' ''ABCD'' (fst (on_create 1000 ''A'' ''ABCD'' initial_db)))))
        ''ABCD''
     = Some \<lparr>createdAt = 1000, participants = [''A'', ''B''], creator = Some ''A'',
             connectedAt = None\<rparr>
   \<and> snd (on_join ''C'' ''ABCD''
        (fst (on_join ''B'' ''ABCD'' (fst (on_create 1000 ''A'' ''ABCD'' initial_db)))))
     = [Ack (AckErr (Message ''Room is full'')), Emit ToSender (Ev_error (Message ''Room is full''))]"
  using join_room_contract [of "''ZZZZ''" "''B''" initial_db]
    join_room_contract [of "[]" "''B''" initial_db]
    join_room_contract [of "''ABCD''" "''B''" "fst (on_create 1000 ''A'' ''ABCD'' initial_db)"]
    join_room_contract [of "''ABCD''" "''C''"
      "fst (on_join ''B'' ''ABCD'' (fst (on_create 1000 ''A'' ''ABCD'' initial_db)))"]
  by (simp add: initial_db_def on_create_def on_join_def join_failed_def deliver_pending_def
      inherits_def object_prototype_names_def Let_def)

subsection \<open>Relaying negotiation payloads\<close>

lemma relay_inherited_name:
  "room data \<noteq> [] \<Longrightarrow> truthy (offer data) \<Longrightarrow> map_of (rooms d) (room data) = None \<Longrightarrow>
   inherits d (room data) \<Longrightarrow>
     on_offer s data d = (d, [Ack (AckErr (TypeError ''includes''))])"
  by (simp add: on_offer_def includes_participant_def)

text \<open>
  An \<^verbatim>\<open>offer\<close> without its payload, sent by a client that is in no room, fails with
  \<^verbatim>\<open>Invalid offer data\<close>: the presence of the fields is checked before the
  membership of the sender. And the payload of a participant goes to the room's transport
  group, not to the room's participants: when X creates a room whose code is the
  identifier of the connected socket A, A is in the group of that name, and an offer of X,
  the only participant, is delivered to A.
\<close>

theorem relay_counterexample:
  "includes_participant initial_db ''ABCD'' ''X'' = Inr False
   \<and> on_offer ''X'' \<lparr>room = ''ABCD'', offer = JUndefined, answer = JUndefined,
          candidate = JUndefined\<rparr> initial_db
       = (initial_db, [Ack (AckErr (Message ''Invalid offer data''))])
   \<and> Ack (AckErr (Message ''Not a room participant''))
       \<notin> set (snd (on_offer ''X'' \<lparr>room = ''ABCD'', offer = JUndefined, answer = JUndefined,
          candidate = JUndefined\<rparr> initial_db))
   \<and> map_of (rooms (fst (run initial_db
        [(clock_at 0, ''sockA'', Connection), (clock_at 0, ''sockX'', Connection),
         (clock_at 1000, ''sockX'', Create ''sockA'')]))) ''sockA''
       = Some \<lparr>createdAt = 1000, participants = [''sockX''], creator = Some ''sockX'',
               connectedAt = None\<rparr>
   \<and> last (deliveries no_groups
        [(clock_at 0, ''sockA'', Connection), (clock_at 0, ''sockX'', Connection),
         (clock_at 1000, ''sockX'', Create ''sockA''),
         (clock_at 2000, ''sockX'', Offer \<lparr>room = ''sockA'', offer = JStr ''sdp'',
            answer = JUndefined, candidate = JUndefined\<rparr>)]
        (snd (run initial_db
        [(clock_at 0, ''sockA'', Connection), (clock_at 0, ''sockX'', Connection),
         (clock_at 1000, ''sockX'', Create ''sockA''),
         (clock_at 2000, ''sockX'', Offer \<lparr>room = ''sockA'', offer = JStr ''sdp'',
            answer = JUndefined, candidate = JUndefined\<rparr>)])))
       = [({''sockA''}, Ev_offer \<lparr>room = ''sockA'', offer = JStr ''sdp'',
            answer = JUndefined, candidate = JUndefined\<rparr>)]"
  by (simp add: includes_participant_def initial_db_def handle_def on_offer_def on_connection_def
      on_create_def inherits_def object_prototype_names_def recipients_def clock_at_def
      no_groups_def insert_Diff_if)

text \<open>
  Claim C4, amended. A relay request (\<^verbatim>\<open>offer\<close>, \<^verbatim>\<open>answer\<close> or \<^verbatim>\<open>ice\<close>) whose
  sender is not among the participants of the named room, the room being registered or
  its code not the name of an inherited value, always fails, changes nothing and forwards
  nothing: the failure is the validation failure of its kind when the room or the payload
  field is missing, and \<^verbatim>\<open>Not a room participant\<close> otherwise. A request with both
  fields present whose sender is a participant is acknowledged with success and
  forwarded unchanged to the members of the room's transport group other than the sender.
\<close>

theorem relay_contract:
  "(includes_participant d (room data) s = Inr False \<longrightarrow>
      dispatch (clk, s, relay_request k data) d
        = (d, [Ack (AckErr (if room data = [] \<or> \<not> truthy (relay_field k data)
                            then invalid_message k else Message ''Not a room participant''))])
      \<and> deliver s (snd (dispatch (clk, s, relay_request k data) d)) m = [])
   \<and> (includes_participant d (room data) s = Inr True
        \<and> room data \<noteq> [] \<and> truthy (relay_field k data) \<longrightarrow>
        dispatch (clk, s, relay_request k data) d
          = (d, [Emit (ToGroupExcept (room data) s) (relay_event k data), Ack (AckOk None)])
        \<and> deliver s (snd (dispatch (clk, s, relay_request k data) d)) m
            = [(m (room data) - {s}, relay_event k data)])"
  by (cases k) (simp_all add: on_offer_def on_answer_def on_ice_def recipients_def)

theorem relay_contract_witness:
  "dispatch (clock_at 3000, ''X'', Offer \<lparr>room = ''ABCD'', offer = JStr ''sdp'', answer = JUndefined,
        candidate = JUndefined\<rparr>) (fst (on_create 1000 ''A'' ''ABCD'' initial_db))
     = (fst (on_create 1000 ''A'' ''ABCD'' initial_db),
        [Ack (AckErr (Message ''Not a room participant''))])
   \<and> dispatch (clock_at 3000, ''A'', Ice \<lparr>room = ''ABCD'', offer = JUndefined, answer = JUndefined,
        candidate = JObj [(''candidate'', JStr ''c'')]\<rparr>)
        (fst (on_create 1000 ''A'' ''ABCD'' initial_db))
     = (fst (on_create 1000 ''A'' ''ABCD'' initial_db),
        [Emit (ToGroupExcept ''ABCD'' ''A'')
           (Ev_ice \<lparr>room = ''ABCD'', offer = JUndefined, answer = JUndefined,
              candidate = JObj [(''candidate'', JStr ''c'')]\<rparr>),
         Ack (AckOk None)])"
  using relay_contract [of "fst (on_create 1000 ''A'' ''ABCD'' initial_db)"
      "\<lparr>room = ''ABCD'', offer = JStr ''sdp'', answer = JUndefined, candidate = JUndefined\<rparr>"
      "''X''" "clock_at 3000" KOffer]
    relay_contract [of "fst (on_create 1000 ''A'' ''ABCD'' initial_db)"
      "\<lparr>room = ''ABCD'', offer = JUndefined, answer = JUndefined,
        candidate = JObj [(''candidate'', JStr ''c'')]\<rparr>"
      "''A''" "clock_at 3000" KIce]
  by (simp add: includes_participant_def initial_db_def on_create_def inherits_def
      object_prototype_names_def)

subsection \<open>Removing a participant and writing call records\<close>


lemma lookup_remove_participant:
  assumes "map_of (rooms d) code = Some roomObj"
    and "map_of (rooms (remove_participant now code roomObj s d)) c = Some r'"
  shows "\<exists>r0. map_of (rooms d) c = Some r0 \<and> connectedAt r0 = connectedAt r'"
proof (cases rule: remove_participant_cases [of s roomObj d now code])
  case (last started)
  then show ?thesis using assms by (auto simp: map_of_delete_if split: if_splits)
next
  case stays
  then show ?thesis using assms by (auto simp: map_of_update_if split: if_splits)
qed

lemma other_room_remove_participant:
  "c \<noteq> code \<Longrightarrow>
     map_of (rooms (remove_participant now code roomObj s d)) c = map_of (rooms d) c"
  by (cases rule: remove_participant_cases [of s roomObj d now code])
     (simp_all add: map_of_delete_if map_of_update_if)

lemma accounts_for_remove_participant:
  assumes "map_of (rooms d) code = Some roomObj"
    and "accounts_for clk (remove_participant now code roomObj s d) r"
  shows "accounts_for clk d r"
proof -
  from assms(2) obtain r' where
    r': "map_of (rooms (remove_participant now code roomObj s d)) (cr_room r) = Some r'"
    and p: "connectedAt_of (remove_participant now code roomObj s d) r' = Some (startTime r)"
      "endTime r = clk (cr_room r)"
      "duration r = of_int (endTime r - startTime r) / 1000"
    by (auto simp: accounts_for_def split: option.splits)
  from lookup_remove_participant [OF assms(1) r'] obtain r0 where
    "map_of (rooms d) (cr_room r) = Some r0" "connectedAt r0 = connectedAt r'" by blast
  moreover from this have "connectedAt_of d r0
      = connectedAt_of (remove_participant now code roomObj s d) r'"
    by (intro connectedAt_of_cong) (simp_all add: remove_participant_keeps)
  ultimately show ?thesis
    using p by (simp add: accounts_for_def)
qed

lemma records_remove_participant:
  assumes "map_of (rooms d) code = Some roomObj"
  shows "\<exists>new. callRecords (remove_participant now code roomObj s d) = callRecords d @ new
           \<and> (\<forall>r\<in>set new. cr_room r = code \<and> endTime r = now \<and> cr_participants r = []
                 \<and> connectedAt_of d roomObj = Some (startTime r)
                 \<and> duration r = of_int (endTime r - startTime r) / 1000)"
proof (cases rule: remove_participant_cases [of s roomObj d now code])
  case (last started)
  then show ?thesis by simp
next
  case stays
  then show ?thesis by simp
qed

lemma records_sweep:
  "\<exists>new. callRecords (fst (sweep clk s codes d)) = callRecords d @ new
         \<and> (\<forall>r\<in>set new. accounts_for clk d r \<and> cr_participants r = [])"
proof (induction codes arbitrary: d)
  case Nil
  then show ?case by simp
next
  case (Cons code codes)
  show ?case
  proof (cases "map_of (rooms d) code")
    case None
    then show ?thesis using Cons.IH [of d] by simp
  next
    case (Some roomObj)
    show ?thesis
    proof (cases "s \<in> set (participants roomObj)")
      case False
      then show ?thesis using Some Cons.IH [of d] by simp
    next
      case True
      let ?d' = "remove_participant (clk code) code roomObj s d"
      from records_remove_participant [OF Some, of "clk code" s] obtain new1 where
        n1: "callRecords ?d' = callRecords d @ new1"
        and p1: "\<forall>r\<in>set new1. cr_room r = code \<and> endTime r = clk code \<and> cr_participants r = []
                 \<and> connectedAt_of d roomObj = Some (startTime r)
                 \<and> duration r = of_int (endTime r - startTime r) / 1000"
        by blast
      from Cons.IH [of ?d'] obtain new2 where
        n2: "callRecords (fst (sweep clk s codes ?d')) = callRecords ?d' @ new2"
        and p2: "\<forall>r\<in>set new2. accounts_for clk ?d' r \<and> cr_participants r = []"
        by blast
      have a1: "\<forall>r\<in>set new1. accounts_for clk d r \<and> cr_participants r = []"
        using p1 Some by (auto simp: accounts_for_def)
      have a2: "\<forall>r\<in>set new2. accounts_for clk d r \<and> cr_participants r = []"
        using p2 accounts_for_remove_participant [OF Some] by blast
      have "callRecords (fst (sweep clk s (code # codes) d)) = callRecords d @ (new1 @ new2)"
        using Some True n1 n2 by (simp add: Let_def split_beta)
      moreover have "\<forall>r\<in>set (new1 @ new2). accounts_for clk d r \<and> cr_participants r = []"
        using a1 a2 by auto
      ultimately show ?thesis by blast
    qed
  qed
qed




lemma set_own_keys: "set (own_keys al) = fst ` set al"
  by (auto simp: own_keys_def Let_def)

lemma lookup_in_own_keys: "map_of al k = Some v \<Longrightarrow> k \<in> set (own_keys al)"
  by (force simp: set_own_keys dest!: map_of_SomeD)

lemma absent_sweep:
  assumes "map_of (rooms d) code = None"
  shows "map_of (rooms (fst (sweep clk s codes d))) code = None"
proof -
  have "code \<notin> fst ` set (rooms d)" using assms by (simp add: map_of_eq_None_iff)
  then have "code \<notin> fst ` set (rooms (fst (sweep clk s codes d)))"
    using keys_sweep [of clk s codes d] by blast
  then show ?thesis by (simp add: map_of_eq_None_iff)
qed

lemma absent_no_record:
  assumes "map_of (rooms d) code = None"
    and "callRecords (fst (sweep clk s codes d)) = callRecords d @ new"
  shows "filter (\<lambda>r. cr_room r = code) new = []"
proof -
  from records_sweep [of clk s codes d] obtain new' where
    "callRecords (fst (sweep clk s codes d)) = callRecords d @ new'"
    and p: "\<forall>r\<in>set new'. accounts_for clk d r \<and> cr_participants r = []" by blast
  then have "new' = new" using assms(2) by simp
  then have "\<forall>r\<in>set new. cr_room r \<noteq> code"
    using p assms(1) by (auto simp: accounts_for_def)
  then show ?thesis by (simp add: filter_empty_conv)
qed

lemma sweep_finalizes:
  assumes "code \<in> set codes" and "map_of (rooms d) code = Some roomObj"
    and "participants roomObj = [a]" and "connectedAt roomObj = Some started"
  shows "\<exists>new. callRecords (fst (sweep clk a codes d)) = callRecords d @ new
           \<and> filter (\<lambda>r. cr_room r = code) new
               = [\<lparr>cr_room = code, startTime = started, endTime = clk code,
                   duration = of_int (clk code - started) / 1000, cr_participants = []\<rparr>]
           \<and> map_of (rooms (fst (sweep clk a codes d))) code = None"
  using assms
proof (induction codes arbitrary: d)
  case Nil
  then show ?case by simp
next
  case (Cons c codes)
  let ?rec = "\<lparr>cr_room = code, startTime = started, endTime = clk code,
                   duration = of_int (clk code - started) / 1000, cr_participants = []\<rparr>"
  show ?case
  proof (cases "c = code")
    case True
    let ?d' = "remove_participant (clk code) code roomObj a d"
    have d': "?d' = d\<lparr>callRecords := callRecords d @ [?rec],
                      rooms := AList.delete code (rooms d)\<rparr>"
      using Cons.prems by (simp add: remove_participant_last connectedAt_of_own)
    then have gone: "map_of (rooms ?d') code = None" by (simp add: map_of_delete_if)
    from records_sweep [of clk a codes ?d'] obtain new2 where
      n2: "callRecords (fst (sweep clk a codes ?d')) = callRecords ?d' @ new2" by blast
    have f2: "filter (\<lambda>r. cr_room r = code) new2 = []"
      using gone n2 by (rule absent_no_record)
    have "callRecords (fst (sweep clk a (c # codes) d)) = callRecords d @ (?rec # new2)"
      using True Cons.prems n2 d' by (simp add: Let_def split_beta)
    moreover have "filter (\<lambda>r. cr_room r = code) (?rec # new2) = [?rec]"
      using f2 by simp
    moreover have "map_of (rooms (fst (sweep clk a (c # codes) d))) code = None"
      using True Cons.prems absent_sweep [OF gone, of clk a codes]
      by (simp add: Let_def split_beta)
    ultimately show ?thesis by blast
  next
    case False
    then have mem: "code \<in> set codes" using Cons.prems by simp
    show ?thesis
    proof (cases "map_of (rooms d) c")
      case None
      then show ?thesis using Cons.IH [OF mem Cons.prems(2-4)] by simp
    next
      case (Some r)
      show ?thesis
      proof (cases "a \<in> set (participants r)")
        case no: False
        then show ?thesis using Some Cons.IH [OF mem Cons.prems(2-4)] by simp
      next
        case True
        let ?d' = "remove_participant (clk c) c r a d"
        have same: "map_of (rooms ?d') code = Some roomObj"
          using False Cons.prems(2) by (simp add: other_room_remove_participant)
        from records_remove_participant [OF Some, of "clk c" a] obtain new1 where
          n1: "callRecords ?d' = callRecords d @ new1"
          and p1: "\<forall>x\<in>set new1. cr_room x = c" by blast
        from Cons.IH [OF mem same Cons.prems(3,4)] obtain new2 where
          n2: "callRecords (fst (sweep clk a codes ?d')) = callRecords ?d' @ new2"
          and f2: "filter (\<lambda>r. cr_room r = code) new2 = [?rec]"
          and g2: "map_of (rooms (fst (sweep clk a codes ?d'))) code = None" by blast
        have f1: "filter (\<lambda>r. cr_room r = code) new1 = []"
          using p1 False by (simp add: filter_empty_conv)
        have "callRecords (fst (sweep clk a (c # codes) d)) = callRecords d @ (new1 @ new2)"
          using Some True n1 n2 by (simp add: Let_def split_beta)
        moreover have "filter (\<lambda>r. cr_room r = code) (new1 @ new2) = [?rec]"
          using f1 f2 by simp
        moreover have "map_of (rooms (fst (sweep clk a (c # codes) d))) code = None"
          using Some True g2 by (simp add: Let_def split_beta)
        ultimately show ?thesis by blast
      qed
    qed
  qed
qed

subsection \<open>The duration of a call\<close>





subsection \<open>The last participant disconnects\<close>

text \<open>
  The scenario of the specification: A creates the room, B joins, A marks the call as
  connected, B disconnects, A disconnects. Before the last step A is the only participant
  of the connected room; the record written by the last step has no participants, since A
  is taken out of the list before the record is written.
\<close>

theorem last_disconnect_counterexample:
  "map_of (rooms (fst (run initial_db
       [(clock_at 1000, ''A'', Create ''ABCD''), (clock_at 2000, ''B'', Join ''ABCD''),
        (clock_at 3000, ''A'', CallConnected ''ABCD''), (clock_at 4000, ''B'', Disconnect)])))
     ''ABCD''
     = Some \<lparr>createdAt = 1000, participants = [''A''], creator = Some ''A'', connectedAt = Some 3000\<rparr>
   \<and> callRecords (fst (run initial_db
       [(clock_at 1000, ''A'', Create ''ABCD''), (clock_at 2000, ''B'', Join ''ABCD''),
        (clock_at 3000, ''A'', CallConnected ''ABCD''), (clock_at 4000, ''B'', Disconnect),
        (clock_at 5500, ''A'', Disconnect)]))
     = [\<lparr>cr_room = ''ABCD'', startTime = 3000, endTime = 5500, duration = 5 / 2,
         cr_participants = []\<rparr>]
   \<and> cr_participants (hd (callRecords (fst (run initial_db
       [(clock_at 1000, ''A'', Create ''ABCD''), (clock_at 2000, ''B'', Join ''ABCD''),
        (clock_at 3000, ''A'', CallConnected ''ABCD''), (clock_at 4000, ''B'', Disconnect),
        (clock_at 5500, ''A'', Disconnect)])))) \<noteq> [''A'']"
  by (simp add: initial_db_def handle_def on_create_def on_join_def join_failed_def
      deliver_pending_def inherits_def object_prototype_names_def
      on_call_connected_def on_disconnect_def cleanupSocketRooms_def own_keys_def
      is_array_index_def is_digit_def remove_participant_def finalizeCallRecord_def
      connectedAt_of_def inherited_keys_def clock_at_def Let_def)

text \<open>
  Claim C8, amended. When the only participant left in a connected room disconnects, the
  disconnect handler appends exactly one record for that room, from the room's
  \<open>connectedAt\<close> to the clock reading, with an empty list of participants (every
  record the handler appends has one), and the room is no longer registered.
\<close>

theorem last_participant_disconnects:
  assumes "map_of (rooms d) code = Some roomObj"
    and "participants roomObj = [a]"
    and "connectedAt roomObj = Some started"
  shows "callRecords (fst (on_disconnect clk a d))
           = callRecords d @ appended_records d (fst (on_disconnect clk a d))
         \<and> filter (\<lambda>r. cr_room r = code) (appended_records d (fst (on_disconnect clk a d)))
             = [\<lparr>cr_room = code, startTime = started, endTime = clk code,
                 duration = of_int (clk code - started) / 1000, cr_participants = []\<rparr>]
         \<and> list_all (\<lambda>r. cr_participants r = []) (appended_records d (fst (on_disconnect clk a d)))
         \<and> map_of (rooms (fst (on_disconnect clk a d))) code = None"
proof -
  let ?d' = "fst (sweep clk a (own_keys (rooms d)) d)"
  let ?e = "fst (on_disconnect clk a d)"
  have same: "callRecords ?e = callRecords ?d'" "rooms ?e = rooms ?d'"
    by (simp_all add: on_disconnect_def cleanupSocketRooms_sweep)
  have "code \<in> set (own_keys (rooms d))" using assms(1) by (rule lookup_in_own_keys)
  from sweep_finalizes [OF this assms, of clk] obtain new where
    n: "callRecords ?d' = callRecords d @ new"
    and f: "filter (\<lambda>r. cr_room r = code) new
               = [\<lparr>cr_room = code, startTime = started, endTime = clk code,
                   duration = of_int (clk code - started) / 1000, cr_participants = []\<rparr>]"
    and g: "map_of (rooms ?d') code = None" by blast
  from records_sweep [of clk a "own_keys (rooms d)" d] obtain new' where
    n': "callRecords ?d' = callRecords d @ new'"
    and p: "\<forall>r\<in>set new'. accounts_for clk d r \<and> cr_participants r = []" by blast
  have e: "new' = new" using n n' by simp
  have a: "appended_records d ?e = new" using n same by (simp add: appended_records_def)
  show ?thesis
    using n f g p e a same by (simp add: list_all_iff)
qed

theorem last_participant_disconnects_witness:
  "callRecords (fst (on_disconnect (clock_at 5500) ''A''
      \<lparr>callRecords = [], offlineMessages = [],
       rooms = [(''ABCD'', \<lparr>createdAt = 1000, participants = [''A''], creator = Some ''A'',
                            connectedAt = Some 3000\<rparr>)],
       stats = \<lparr>totalCalls = 1, failedCalls = 0, totalConnections = 0\<rparr>,
        inherited_connectedAt = None, crashed = False\<rparr>))
     = [\<lparr>cr_room = ''ABCD'', startTime = 3000, endTime = 5500, duration = 5 / 2,
         cr_participants = []\<rparr>]
   \<and> rooms (fst (on_disconnect (clock_at 5500) ''A''
      \<lparr>callRecords = [], offlineMessages = [],
       rooms = [(''ABCD'', \<lparr>createdAt = 1000, participants = [''A''], creator = Some ''A'',
                            connectedAt = Some 3000\<rparr>)],
       stats = \<lparr>totalCalls = 1, failedCalls = 0, totalConnections = 0\<rparr>,
        inherited_connectedAt = None, crashed = False\<rparr>)) = []"
  using last_participant_disconnects [of
      "\<lparr>callRecords = [], offlineMessages = [],
        rooms = [(''ABCD'', \<lparr>createdAt = 1000, participants = [''A''], creator = Some ''A'',
                             connectedAt = Some 3000\<rparr>)],
        stats = \<lparr>totalCalls = 1, failedCalls = 0, totalConnections = 0\<rparr>,
        inherited_connectedAt = None, crashed = False\<rparr>"
      "''ABCD''"
      "\<lparr>createdAt = 1000, participants = [''A''], creator = Some ''A'', connectedAt = Some 3000\<rparr>"
      "''A''" 3000 "clock_at 5500"]
  by (simp add: appended_records_def on_disconnect_def cleanupSocketRooms_def own_keys_def
      is_array_index_def is_digit_def remove_participant_def finalizeCallRecord_def
      connectedAt_of_def inherited_keys_def clock_at_def Let_def)

subsection \<open>The notification of the first participant\<close>

lemma sweep_only_leaves:
  "set (snd (sweep clk s codes d)) \<subseteq> range (\<lambda>c. Emit (ToGroup c) Ev_leave)"
proof (induction codes arbitrary: d)
  case Nil
  then show ?case by simp
next
  case (Cons code codes)
  show ?case
  proof (cases "map_of (rooms d) code")
    case None
    then show ?thesis using Cons.IH [of d] by simp
  next
    case (Some roomObj)
    then show ?thesis
      using Cons.IH [of d] Cons.IH [of "remove_participant (clk code) code roomObj s d"]
      by (auto simp: Let_def split_beta)
  qed
qed

lemma sweep_no_peer_joined: "filter is_peer_joined (snd (sweep clk s codes d)) = []"
  using sweep_only_leaves [of clk s codes d] by (auto simp: filter_empty_conv)

lemma deliver_pending_actions:
  "snd (deliver_pending code d) = []
   \<or> snd (deliver_pending code d) = [Emit ToSender (Ev_pending_messages (pending_of d code))]
       \<and> pending_of d code \<noteq> []
   \<or> snd (deliver_pending code d) = [Emit ToSender (Ev_pending_messages_inherited code)]
       \<and> map_of (offlineMessages d) code = None \<and> inherits d code"
  by (auto simp: deliver_pending_def pending_of_def split: option.splits)

lemma deliver_pending_no_peer_joined:
  "filter is_peer_joined (snd (deliver_pending code d)) = []"
  using deliver_pending_actions [of code d] by auto

lemma on_join_peer_joined:
  "filter is_peer_joined (snd (on_join s code d)) =
     (case map_of (rooms d) code of
        None \<Rightarrow> []
      | Some roomObj \<Rightarrow>
          if code \<noteq> [] \<and> length (participants roomObj) = 1
          then [Emit (ToGroup (hd (participants roomObj))) Ev_peer_joined]
          else [])"
proof (cases "code \<noteq> [] \<and> (\<exists>roomObj. map_of (rooms d) code = Some roomObj
    \<and> length (participants roomObj) < 2)")
  case True
  then obtain roomObj where r: "code \<noteq> []" "map_of (rooms d) code = Some roomObj"
    "length (participants roomObj) < 2" by blast
  show ?thesis
    using r by (simp add: on_join_success [OF r] deliver_pending_no_peer_joined)
next
  case False
  then show ?thesis
    by (cases "map_of (rooms d) code") (auto simp: on_join_def join_failed_def not_less)
qed

lemma other_requests_no_peer_joined:
  "(\<forall>code. req \<noteq> Join code) \<Longrightarrow> filter is_peer_joined (snd (dispatch (clk, s, req) d)) = []"
  by (cases req)
     (simp_all add: on_connection_def on_create_def on_offer_def on_answer_def on_ice_def
       on_recording_started_def on_recording_stopped_def on_leave_message_def Let_def
       on_call_connected_def on_leave_def on_disconnect_def cleanupSocketRooms_sweep
       sweep_no_peer_joined split: option.splits sum.splits bool.splits)

text \<open>Who receives the notification of a join that fills the second place.\<close>

lemma on_join_peer_joined_delivered:
  assumes "code \<noteq> []" and "map_of (rooms d) code = Some roomObj"
    and "length (participants roomObj) = 1"
  shows "delivered Ev_peer_joined (deliver s (snd (on_join s code d)) m)
           = [(m(code := insert s (m code))) (hd (participants roomObj))]"
proof -
  have r: "code \<noteq> []" "map_of (rooms d) code = Some roomObj"
    "length (participants roomObj) < 2"
    using assms by simp_all
  show ?thesis
    using deliver_pending_actions [of code d] assms(3)
    by (auto simp: on_join_success [OF r] delivered_def recipients_def)
qed

text \<open>
  A room can see the notification more than once: A creates the room, B joins, B leaves
  and C joins. The room stays registered throughout, and A is notified at both joins.
  And the notification does not reach the first participant only: when the connected
  socket A creates a room whose code is its own identifier and B joins it, the
  notification goes to the group of that name, in which B is too.
\<close>

theorem peer_joined_counterexample:
  "filter is_peer_joined (concat (snd (run initial_db
       [(clock_at 1000, ''A'', Create ''ABCD''), (clock_at 2000, ''B'', Join ''ABCD''),
        (clock_at 3000, ''B'', Leave ''ABCD''), (clock_at 4000, ''C'', Join ''ABCD'')])))
     = [Emit (ToGroup ''A'') Ev_peer_joined, Emit (ToGroup ''A'') Ev_peer_joined]
   \<and> map_of (rooms (fst (run initial_db
       [(clock_at 1000, ''A'', Create ''ABCD''), (clock_at 2000, ''B'', Join ''ABCD''),
        (clock_at 3000, ''B'', Leave ''ABCD'')]))) ''ABCD''
     = Some \<lparr>createdAt = 1000, participants = [''A''], creator = Some ''A'', connectedAt = None\<rparr>
   \<and> map_of (rooms (fst (run initial_db
       [(clock_at 1000, ''A'', Create ''ABCD''), (clock_at 2000, ''B'', Join ''ABCD''),
        (clock_at 3000, ''B'', Leave ''ABCD''), (clock_at 4000, ''C'', Join ''ABCD'')]))) ''ABCD''
     = Some \<lparr>createdAt = 1000, participants = [''A'', ''C''], creator = Some ''A'',
             connectedAt = None\<rparr>
   \<and> map_of (rooms (fst (run initial_db
       [(clock_at 0, ''sockA'', Connection), (clock_at 0, ''sockB'', Connection),
        (clock_at 1000, ''sockA'', Create ''sockA''),
        (clock_at 2000, ''sockB'', Join ''sockA'')]))) ''sockA''
     = Some \<lparr>createdAt = 1000, participants = [''sockA'', ''sockB''], creator = Some ''sockA'',
             connectedAt = None\<rparr>
   \<and> delivered Ev_peer_joined (last (deliveries no_groups
       [(clock_at 0, ''sockA'', Connection), (clock_at 0, ''sockB'', Connection),
        (clock_at 1000, ''sockA'', Create ''sockA''),
        (clock_at 2000, ''sockB'', Join ''sockA'')]
       (snd (run initial_db
       [(clock_at 0, ''sockA'', Connection), (clock_at 0, ''sockB'', Connection),
        (clock_at 1000, ''sockA'', Create ''sockA''),
        (clock_at 2000, ''sockB'', Join ''sockA'')]))))
     = [{''sockA'', ''sockB''}]"
  by (simp add: initial_db_def handle_def on_connection_def on_create_def on_join_def
      join_failed_def deliver_pending_def inherits_def object_prototype_names_def
      on_leave_def cleanupRoom_def remove_participant_def connectedAt_of_def
      recipients_def delivered_def no_groups_def clock_at_def Let_def insert_commute)

text \<open>
  Claim C6, amended. The \<^verbatim>\<open>peer_joined\<close> notification is emitted exactly by the joins
  that take the number of participants of a room from one to two: such a join emits it
  once, addressed to the transport group named by the identifier of the participant that
  was there (the first entry of the list, which now has two entries), and it is
  delivered to the members of that group as it is after the caller has been put into the
  group of the room. No other request emits it.
\<close>

theorem peer_joined_at_second_join:
  "(\<forall>code roomObj. req = Join code \<and> code \<noteq> []
        \<and> map_of (rooms d) code = Some roomObj \<and> length (participants roomObj) = 1 \<longrightarrow>
      filter is_peer_joined (snd (dispatch (clk, s, req) d))
        = [Emit (ToGroup (hd (participants roomObj))) Ev_peer_joined]
      \<and> map_of (rooms (fst (dispatch (clk, s, req) d))) code
          = Some (roomObj\<lparr>participants := [hd (participants roomObj), s]\<rparr>)
      \<and> delivered Ev_peer_joined (deliver s (snd (dispatch (clk, s, req) d)) m)
          = [(m(code := insert s (m code))) (hd (participants roomObj))])
   \<and> (\<not> second_join d req \<longrightarrow> filter is_peer_joined (snd (dispatch (clk, s, req) d)) = [])"
proof -
  have a: "filter is_peer_joined (snd (dispatch (clk, s, req) d))
        = [Emit (ToGroup (hd (participants roomObj))) Ev_peer_joined]
      \<and> map_of (rooms (fst (dispatch (clk, s, req) d))) code
          = Some (roomObj\<lparr>participants := [hd (participants roomObj), s]\<rparr>)
      \<and> delivered Ev_peer_joined (deliver s (snd (dispatch (clk, s, req) d)) m)
          = [(m(code := insert s (m code))) (hd (participants roomObj))]"
    if h: "req = Join code \<and> code \<noteq> [] \<and> map_of (rooms d) code = Some roomObj
      \<and> length (participants roomObj) = 1" for code roomObj
  proof -
    obtain p where p: "participants roomObj = [p]"
      using h by (cases "participants roomObj") auto
    have r: "code \<noteq> []" "map_of (rooms d) code = Some roomObj"
      "length (participants roomObj) < 2"
      using h by simp_all
    have "map_of (rooms (fst (on_join s code d))) code
          = Some (roomObj\<lparr>participants := [hd (participants roomObj), s]\<rparr>)"
      using p by (simp add: on_join_success [OF r] map_of_update_if)
    then show ?thesis
      using h on_join_peer_joined_delivered [of code d roomObj s m]
      by (simp add: on_join_peer_joined)
  qed
  have b: "filter is_peer_joined (snd (dispatch (clk, s, req) d)) = []" if "\<not> second_join d req"
  proof (cases "\<exists>code. req = Join code")
    case True
    then show ?thesis using that
      by (auto simp: on_join_peer_joined second_join_def split: option.splits)
  next
    case False
    then show ?thesis by (simp add: other_requests_no_peer_joined)
  qed
  show ?thesis using a b by blast
qed

theorem peer_joined_at_second_join_witness:
  "filter is_peer_joined (snd (dispatch (clock_at 2000, ''B'', Join ''ABCD'')
       (fst (on_create 1000 ''A'' ''ABCD'' initial_db))))
     = [Emit (ToGroup ''A'') Ev_peer_joined]
   \<and> delivered Ev_peer_joined (deliver ''B'' (snd (dispatch (clock_at 2000, ''B'', Join ''ABCD'')
       (fst (on_create 1000 ''A'' ''ABCD'' initial_db)))) (no_groups(''A'' := {''A''})))
     = [{''A''}]
   \<and> \<not> second_join initial_db (Create ''ABCD'')
   \<and> filter is_peer_joined (snd (dispatch (clock_at 1000, ''A'', Create ''ABCD'') initial_db)) = []
   \<and> \<not> second_join
        (initial_db\<lparr>rooms := [(''ABCD'', \<lparr>createdAt = 1000, participants = [''A'', ''B''],
                                           creator = Some ''A'', connectedAt = None\<rparr>)]\<rparr>)
        (Join ''ABCD'')
   \<and> filter is_peer_joined (snd (dispatch (clock_at 3000, ''C'', Join ''ABCD'')
        (initial_db\<lparr>rooms := [(''ABCD'', \<lparr>createdAt = 1000, participants = [''A'', ''B''],
                                           creator = Some ''A'', connectedAt = None\<rparr>)]\<rparr>))) = []"
  using peer_joined_at_second_join [of "Join ''ABCD''"
      "fst (on_create 1000 ''A'' ''ABCD'' initial_db)" "clock_at 2000" "''B''"
      "no_groups(''A'' := {''A''})"]
    peer_joined_at_second_join [of "Create ''ABCD''" initial_db "clock_at 1000" "''A''"]
    peer_joined_at_second_join [of "Join ''ABCD''"
      "initial_db\<lparr>rooms := [(''ABCD'', \<lparr>createdAt = 1000, participants = [''A'', ''B''],
                                        creator = Some ''A'', connectedAt = None\<rparr>)]\<rparr>"
      "clock_at 3000" "''C''"]
  by (simp add: on_create_def initial_db_def inherits_def object_prototype_names_def
      second_join_def)

subsection \<open>Messages left for a room\<close>


lemma pending_of_delete:
  "pending_of (d\<lparr>offlineMessages := AList.delete c (offlineMessages d)\<rparr>) code
     = (if code = c then [] else pending_of d code)"
  by (simp add: pending_of_def map_of_delete_if)

lemma pending_of_offlineMessages_eq:
  "offlineMessages d' = offlineMessages d \<Longrightarrow> pending_of d' code = pending_of d code"
  by (simp add: pending_of_def)













section \<open>Properties of the earlier server\<close>

text \<open>
  The \<^verbatim>\<open>disconnect\<close> and \<^verbatim>\<open>call_connected\<close> handlers of \<^verbatim>\<open>src/server.js\<close>
  leave the same state as those above; they send no acknowledgment. Its \<^verbatim>\<open>create\<close>
  replaces a registered room without a check, its relay handlers forward whatever they
  get from whomever, and its \<^verbatim>\<open>join\<close> of a code that only names an inherited value
  ends in an exception that nothing catches. It keeps rooms within their capacity all
  the same.
\<close>

lemma server_js_sweep_state:
  "fst (server_js_sweep clk s codes d) = fst (sweep clk s codes d)"
proof (induction codes arbitrary: d)
  case Nil
  then show ?case by simp
next
  case (Cons code codes)
  show ?case
  proof (cases "map_of (rooms d) code")
    case None
    then show ?thesis using Cons.IH by simp
  next
    case (Some roomObj)
    show ?thesis
    proof (cases "s \<in> set (participants roomObj)")
      case False
      then show ?thesis using Some Cons.IH by simp
    next
      case True
      then show ?thesis
        using Some Cons.IH
        by (cases "connectedAt_of d roomObj")
           (simp_all add: Let_def split_beta remove_participant_def finalizeCallRecord_def
             map_of_update_if delete_update_same)
    qed
  qed
qed

lemma server_js_disconnect_state:
  "fst (server_js_on_disconnect clk s d) = fst (on_disconnect clk s d)"
  by (simp add: server_js_on_disconnect_def on_disconnect_def cleanupSocketRooms_def
      server_js_sweep_state split_beta)

lemma server_js_call_connected_state:
  "fst (server_js_on_call_connected now code d) = fst (on_call_connected now code d)"
  and "snd (server_js_on_call_connected now code d) = []"
  by (simp_all add: server_js_on_call_connected_def on_call_connected_def split: option.splits)

lemma server_js_create_replaces:
  assumes "code \<noteq> ''__proto__''"
  shows "server_js_on_create now s code d
     = Some (d\<lparr>rooms := AList.update code
                 \<lparr>createdAt = now, participants = [s], creator = None, connectedAt = None\<rparr>
                 (rooms d)\<rparr>,
             [JoinGroup code])"
    and "map_of (rooms (fst (the (server_js_on_create now s code d)))) code
     = Some \<lparr>createdAt = now, participants = [s], creator = None, connectedAt = None\<rparr>"
  using assms by (simp_all add: server_js_on_create_def map_of_update_if)

lemma server_js_relay_unchecked:
  "server_js_on_offer s data d = (d, [Emit (ToGroupExcept (room data) s) (Ev_offer data)])"
  "server_js_on_answer s data d = (d, [Emit (ToGroupExcept (room data) s) (Ev_answer data)])"
  "server_js_on_ice s data d = (d, [Emit (ToGroupExcept (room data) s) (Ev_ice data)])"
  by (simp_all add: server_js_on_offer_def server_js_on_answer_def server_js_on_ice_def)

lemma server_js_join_inherited_name:
  "server_js_on_join ''B'' ''toString'' initial_db = (initial_db\<lparr>crashed := True\<rparr>, [])"
  by (simp add: server_js_on_join_def initial_db_def inherits_def object_prototype_names_def)

lemma server_js_capacity:
  assumes "capacity_ok d"
  shows "server_js_on_create now s code d = Some r \<Longrightarrow> capacity_ok (fst r)"
    and "capacity_ok (fst (server_js_on_join s code d))"
    and "capacity_ok (fst (server_js_on_call_connected now code d))"
    and "capacity_ok (fst (server_js_on_disconnect clk s d))"
proof -
  show "server_js_on_create now s code d = Some r \<Longrightarrow> capacity_ok (fst r)"
    using assms
    by (auto simp: server_js_on_create_def capacity_ok_def list_all_iff
        split: if_splits dest!: set_update_cases)
  show "capacity_ok (fst (server_js_on_join s code d))"
  proof (cases "map_of (rooms d) code")
    case None
    then show ?thesis using assms by (simp add: server_js_on_join_def capacity_ok_def)
  next
    case (Some roomObj)
    have "capacity_ok (fst (deliver_pending code
        (d\<lparr>rooms := AList.update code
              (roomObj\<lparr>participants := participants roomObj @ [s]\<rparr>) (rooms d)\<rparr>)))"
      if "length (participants roomObj) < 2"
      using assms that
      by (auto simp: deliver_pending_keeps capacity_ok_def list_all_iff dest!: set_update_cases)
    then show ?thesis
      using assms Some
      by (simp add: server_js_on_join_def Let_def split_beta not_le)
  qed
  have "capacity_ok (fst (dispatch (clock_at now, s, CallConnected code) d))"
    using assms by (rule capacity_dispatch)
  then show "capacity_ok (fst (server_js_on_call_connected now code d))"
    by (simp add: server_js_call_connected_state clock_at_def)
  have "capacity_ok (fst (dispatch (clk, s, Disconnect) d))"
    using assms by (rule capacity_dispatch)
  then show "capacity_ok (fst (server_js_on_disconnect clk s d))"
    by (simp add: server_js_disconnect_state)
qed

end
